theory Spec2Isabelle
  imports Complex_Main "HOL-Library.Sublist" "HOL-Library.Multiset"
begin

section \<open>Conventions of the embedding\<close>

text \<open>
  The repository holds several generations of one Express server, each a single file:
  \<^item> \<^verbatim>\<open>part_000\<close>: centroid cache, lazily loaded local CLIP model, \<^verbatim>\<open>LIGHT_MODE\<close> switch
    (definitions with suffix \<open>_p000\<close>);
  \<^item> \<^verbatim>\<open>part_001\<close>: per-image reference vectors, remote embedding provider with several
    models and routes, retry and backoff (suffix \<open>_p001\<close>);
  \<^item> \<^verbatim>\<open>part_002\<close>, first file: the older rule-only scorer (suffix \<open>_old\<close>);
  \<^item> \<^verbatim>\<open>part_002\<close>, second file: centroid cache with an eagerly imported local CLIP model
    (suffix \<open>_p002\<close>).
  Functions whose text is the same in every file are embedded once, without suffix.

  JavaScript numbers are idealised as real numbers: rounding of doubles and of
  \<^verbatim>\<open>Float32Array\<close> cells, infinities and \<open>NaN\<close> coming from the outside are not represented.
  Strings are byte strings. Calls that leave the process (storage listing, image fetch,
  embedding, SHA-256) are parameters of the model; a call that can throw returns a sum,
  \<open>Inl\<close> carrying the message of the error.
\<close>

section \<open>Utilities\<close>

text \<open>\<^verbatim>\<open>const clamp = (x, a = 0, b = 1) => Math.max(a, Math.min(b, x))\<close>\<close>

definition clamp :: "real \<Rightarrow> real \<Rightarrow> real \<Rightarrow> real" where
  "clamp x a b = max a (min b x)"

text \<open>The one-argument call \<^verbatim>\<open>clamp(x)\<close>, with the default bounds.\<close>

definition clamp01 :: "real \<Rightarrow> real" where
  "clamp01 x = clamp x 0 1"

subsection \<open>Strings\<close>

text \<open>\<^verbatim>\<open>String.prototype.toLowerCase\<close> on the ASCII letters; every other byte is kept.\<close>

definition toLowerChar :: "char \<Rightarrow> char" where
  "toLowerChar c =
     (case map_of (zip ''ABCDEFGHIJKLMNOPQRSTUVWXYZ'' ''abcdefghijklmnopqrstuvwxyz'') c of
        Some d \<Rightarrow> d
      | None \<Rightarrow> c)"

definition toLowerCase :: "string \<Rightarrow> string" where
  "toLowerCase s = map toLowerChar s"

text \<open>\<^verbatim>\<open>s.includes(t)\<close>: \<open>t\<close> occurs in \<open>s\<close> at some position.\<close>

fun includes_str :: "string \<Rightarrow> string \<Rightarrow> bool" where
  "includes_str [] t = (t = [])"
| "includes_str (c # cs) t = (prefix t (c # cs) \<or> includes_str cs t)"

text \<open>\<^verbatim>\<open>s.startsWith(t)\<close>\<close>

definition startsWith :: "string \<Rightarrow> string \<Rightarrow> bool" where
  "startsWith s t = prefix t s"

text \<open>\<^verbatim>\<open>xs.join(sep)\<close> on an array of strings.\<close>

fun join :: "string list \<Rightarrow> string \<Rightarrow> string" where
  "join [] sep = []"
| "join [x] sep = x"
| "join (x # y # ys) sep = x @ sep @ join (y # ys) sep"

text \<open>
  \<^verbatim>\<open>xs.slice(0, e)\<close> for an integer \<open>e\<close>: a negative end counts from the end of the array.
\<close>

definition slice0 :: "'a list \<Rightarrow> int \<Rightarrow> 'a list" where
  "slice0 xs e = (if e < 0 then take (nat (int (length xs) + e)) xs else take (nat e) xs)"

section \<open>Reference groups: the gender tag\<close>

text \<open>
  \<^verbatim>\<open>
  function inferGenderFromFolder(name) {
    const n = name.toLowerCase();
    if (n.includes("female")) return "female";
    if (n.includes("male")) return "male";
    return "unknown";
  }
  \<close>
\<close>

definition inferGenderFromFolder :: "string \<Rightarrow> string" where
  "inferGenderFromFolder name =
     (let n = toLowerCase name in
      if includes_str n ''female'' then ''female''
      else if includes_str n ''male'' then ''male''
      else ''unknown'')"

text \<open>
  The reading of the specification under which a name matching both patterns is
  ambiguous and gets no tag.
\<close>

definition genderTag_spec :: "string \<Rightarrow> string" where
  "genderTag_spec name =
     (let n = toLowerCase name; f = sublist ''female'' n; m = sublist ''male'' n in
      if f \<and> m then ''unknown''
      else if f then ''female''
      else if m then ''male''
      else ''unknown'')"

text \<open>A list without its element at position \<open>i\<close>.\<close>

definition removeAt :: "nat \<Rightarrow> 'a list \<Rightarrow> 'a list" where
  "removeAt i xs = take i xs @ drop (Suc i) xs"

section \<open>Rule scorer\<close>

subsection \<open>Measurements\<close>

text \<open>
  The parsed measurements \<^verbatim>\<open>{ b, w, h }\<close>: bust, waist and hip.
\<close>

record meas =
  mB :: real
  mW :: real
  mH :: real

text \<open>
  The matches of \<^verbatim>\<open>/\d+(\.\d+)?/g\<close>, left to right: a maximal run of digits, followed by a
  dot and a second maximal run of digits when the dot is followed by a digit. A match is
  kept as its integer part and its optional fraction part.
\<close>

definition isDigit :: "char \<Rightarrow> bool" where
  "isDigit c = (c \<in> set ''0123456789'')"

lemma dropWhile_tail_shorter:
  assumes "d # e # r' = dropWhile P cs"
  shows "length (dropWhile Q r') < Suc (length cs)"
proof -
  have "length (d # e # r') \<le> length cs"
    unfolding assms by (rule length_dropWhile_le)
  moreover have "length (dropWhile Q r') \<le> length r'"
    by (rule length_dropWhile_le)
  ultimately show ?thesis
    by simp
qed

function matchNumbers :: "string \<Rightarrow> (string \<times> string option) list" where
  "matchNumbers [] = []"
| "matchNumbers (c # cs) =
     (if isDigit c then
        (let ip = takeWhile isDigit (c # cs); r = dropWhile isDigit cs in
         case r of
           d # e # r' \<Rightarrow>
             if d = CHR ''.'' \<and> isDigit e
             then (ip, Some (takeWhile isDigit (e # r'))) # matchNumbers (dropWhile isDigit r')
             else (ip, None) # matchNumbers r
         | _ \<Rightarrow> (ip, None) # matchNumbers r)
      else matchNumbers cs)"
  by pat_completeness auto
termination
  apply (relation "measure length")
      apply (simp_all add: le_imp_less_Suc length_dropWhile_le)
  apply (blast intro: dropWhile_tail_shorter)
  done

text \<open>\<^verbatim>\<open>Number(tok)\<close> on a match of the pattern: its decimal value.\<close>

definition digitVal :: "char \<Rightarrow> nat" where
  "digitVal c = (case map_of (zip ''0123456789'' [0, 1, 2, 3, 4, 5, 6, 7, 8, 9]) c of
                   Some n \<Rightarrow> n
                 | None \<Rightarrow> 0)"

definition digitsVal :: "string \<Rightarrow> nat" where
  "digitsVal ds = foldl (\<lambda>a d. 10 * a + digitVal d) 0 ds"

definition Number :: "string \<times> string option \<Rightarrow> real" where
  "Number tok =
     (case tok of
        (ip, None) \<Rightarrow> real (digitsVal ip)
      | (ip, Some fp) \<Rightarrow> real (digitsVal ip) + real (digitsVal fp) / 10 ^ length fp)"

text \<open>
  \<^verbatim>\<open>
  const parseMeas = (mStr) => {
    if (!mStr || typeof mStr !== "string") return null;
    const nums = mStr.match(/\d+(\.\d+)?/g);
    if (!nums || nums.length < 3) return null;
    return { b: Number(nums[0]), w: Number(nums[1]), h: Number(nums[2]) };
  };
  \<close>
  The argument is \<open>None\<close> when the request has no string there.
\<close>

definition parseMeas :: "string option \<Rightarrow> meas option" where
  "parseMeas mStr =
     (case mStr of
        None \<Rightarrow> None
      | Some s \<Rightarrow>
          (case matchNumbers s of
             n0 # n1 # n2 # _ \<Rightarrow> Some \<lparr>mB = Number n0, mW = Number n1, mH = Number n2\<rparr>
           | _ \<Rightarrow> None))"

subsection \<open>Preference profiles\<close>

text \<open>The height triple \<^verbatim>\<open>{ min, target, max }\<close> of a profile.\<close>

record height_prof =
  minH :: real
  targetH :: real
  maxH :: real

text \<open>A band \<^verbatim>\<open>{ min, ideal: [lo, hi], max }\<close>.\<close>

record band =
  minB :: real
  idealLo :: real
  idealHi :: real
  maxB :: real

text \<open>The three bands \<^verbatim>\<open>meas_bands: { b, w, h }\<close>.\<close>

record bands =
  bandB :: band
  bandW :: band
  bandH :: band

text \<open>
  One entry of \<^verbatim>\<open>PREFS\<close>. The female entry has \<^verbatim>\<open>meas_target\<close> and \<^verbatim>\<open>meas_tol\<close> and no
  \<^verbatim>\<open>meas_bands\<close>; the male entry has \<^verbatim>\<open>meas_bands\<close> only.
\<close>

record prefs =
  height :: height_prof
  meas_target :: "meas option"
  meas_tol :: "meas option"
  meas_bands :: "bands option"

definition PREFS_female :: prefs where
  "PREFS_female =
     \<lparr>height = \<lparr>minH = 172, targetH = 177, maxH = 182\<rparr>,
      meas_target = Some \<lparr>mB = 82, mW = 60, mH = 88\<rparr>,
      meas_tol = Some \<lparr>mB = 6, mW = 4, mH = 6\<rparr>,
      meas_bands = None\<rparr>"

definition PREFS_male :: prefs where
  "PREFS_male =
     \<lparr>height = \<lparr>minH = 182, targetH = 186, maxH = 191\<rparr>,
      meas_target = None,
      meas_tol = None,
      meas_bands = Some
        \<lparr>bandB = \<lparr>minB = 88, idealLo = 90, idealHi = 94, maxB = 96\<rparr>,
         bandW = \<lparr>minB = 71, idealLo = 73, idealHi = 77, maxB = 82\<rparr>,
         bandH = \<lparr>minB = 88, idealLo = 90, idealHi = 94, maxB = 96\<rparr>\<rparr>\<rparr>"

text \<open>\<^verbatim>\<open>PREFS[GEN]\<close>, for \<open>GEN\<close> one of the two keys.\<close>

definition PREFS :: "string \<Rightarrow> prefs" where
  "PREFS GEN = (if GEN = ''male'' then PREFS_male else PREFS_female)"

text \<open>
  \<^verbatim>\<open>const GEN = (gender || "female").toLowerCase().startsWith("m") ? "male" : "female";\<close>
  The request's gender is \<open>None\<close> when absent; the empty string is falsy as well.
\<close>

definition resolveGEN :: "string option \<Rightarrow> string" where
  "resolveGEN gender =
     (let g = (case gender of None \<Rightarrow> ''female'' | Some s \<Rightarrow> if s = [] then ''female'' else s) in
      if startsWith (toLowerCase g) ''m'' then ''male'' else ''female'')"

subsection \<open>Height score\<close>

text \<open>
  The request's \<^verbatim>\<open>height_cm\<close>: absent (or \<^verbatim>\<open>null\<close>), a value whose \<^verbatim>\<open>Number(...)\<close> is
  \<open>NaN\<close>, or a number.
\<close>

datatype height_in = NoHeight | NotNumeric | Height real

text \<open>
  \<^verbatim>\<open>
  const heightScoreFactory = ({ min, target, max }) => (h) => {
    if (!h || !Number(h)) return 0;
    const x = Number(h);
    if (x <= min) return 0;
    if (x >= max) return 1;
    let s = (x - min) / (max - min);
    const span = (max - min) / 2;
    const bonus = Math.exp(-Math.pow((x - target) / (span / 2), 2)) * 0.15;
    return clamp(s + bonus);
  };
  \<close>
\<close>

definition heightScoreFactory :: "height_prof \<Rightarrow> height_in \<Rightarrow> real" where
  "heightScoreFactory P h =
     (case h of
        NoHeight \<Rightarrow> 0
      | NotNumeric \<Rightarrow> 0
      | Height x \<Rightarrow>
          if x = 0 then 0
          else if x \<le> minH P then 0
          else if x \<ge> maxH P then 1
          else
            (let s = (x - minH P) / (maxH P - minH P);
                 span = (maxH P - minH P) / 2;
                 bonus = exp (- (((x - targetH P) / (span / 2)) ^ 2)) * 0.15
             in clamp01 (s + bonus)))"

text \<open>\<^verbatim>\<open>if (height_cm)\<close>: the truthiness of the request's height.\<close>

definition truthyHeight :: "height_in \<Rightarrow> bool" where
  "truthyHeight h = (case h of NoHeight \<Rightarrow> False | NotNumeric \<Rightarrow> True | Height x \<Rightarrow> x \<noteq> 0)"

subsection \<open>Measurement score\<close>

text \<open>
  \<^verbatim>\<open>
  const bandScore = (val, band) => {
    if (val == null || !band) return 0;
    const v = Number(val);
    const { min, ideal, max } = band;
    if (v <= min || v >= max) return 0;
    if (v >= ideal[0] && v <= ideal[1]) return 1;
    if (v < ideal[0]) return (v - min) / (ideal[0] - min);
    return (max - v) / (max - ideal[1]);
  };
  \<close>
  Both arguments are present at every call.
\<close>

definition bandScore :: "real \<Rightarrow> band \<Rightarrow> real" where
  "bandScore v bd =
     (if v \<le> minB bd \<or> v \<ge> maxB bd then 0
      else if v \<ge> idealLo bd \<and> v \<le> idealHi bd then 1
      else if v < idealLo bd then (v - minB bd) / (idealLo bd - minB bd)
      else (maxB bd - v) / (maxB bd - idealHi bd))"

text \<open>
  The measurement score of \<^verbatim>\<open>part_000\<close>:
  \<^verbatim>\<open>
  let measScore = 0;
  if (GEN === "male" && P.meas_bands && m) {
    const sB = bandScore(m.b, P.meas_bands.b);
    const sW = bandScore(m.w, P.meas_bands.w);
    const sH = bandScore(m.h, P.meas_bands.h);
    measScore = clamp((sB + 1.3 * sW + sH) / 3.3);
  } else if (m && P.meas_target && P.meas_tol) {
    const dxB = Math.abs(m.b - P.meas_target.b) / P.meas_tol.b;
    const dxW = Math.abs(m.w - P.meas_target.w) / P.meas_tol.w;
    const dxH = Math.abs(m.h - P.meas_target.h) / P.meas_tol.h;
    measScore = clamp((1 - dxB + 1.2 * (1 - dxW) + (1 - dxH)) / 3.2);
  }
  \<close>
\<close>

definition measScore_p000 :: "string \<Rightarrow> prefs \<Rightarrow> meas option \<Rightarrow> real" where
  "measScore_p000 GEN P m =
     (if GEN = ''male'' \<and> meas_bands P \<noteq> None \<and> m \<noteq> None then
        (let bs = the (meas_bands P); mm = the m;
             sB = bandScore (mB mm) (bandB bs);
             sW = bandScore (mW mm) (bandW bs);
             sH = bandScore (mH mm) (bandH bs)
         in clamp01 ((sB + 1.3 * sW + sH) / 3.3))
      else if m \<noteq> None \<and> meas_target P \<noteq> None \<and> meas_tol P \<noteq> None then
        (let mm = the m; t = the (meas_target P); tol = the (meas_tol P);
             dxB = \<bar>mB mm - mB t\<bar> / mB tol;
             dxW = \<bar>mW mm - mW t\<bar> / mW tol;
             dxH = \<bar>mH mm - mH t\<bar> / mH tol
         in clamp01 ((1 - dxB + 1.2 * (1 - dxW) + (1 - dxH)) / 3.2))
      else 0)"

text \<open>
  The measurement score of \<^verbatim>\<open>part_001\<close> and of the second file of \<^verbatim>\<open>part_002\<close>: the lean
  bonus on the banded branch, and each term clamped on the other.
  \<^verbatim>\<open>
    measScore = clamp((sB + 1.3*sW + sH) / 3.3);
    const leanBonus =
      (m.w <= P.meas_bands.w.ideal[1] && m.b <= P.meas_bands.b.ideal[1]
        && m.h <= P.meas_bands.h.ideal[1]) ? 0.03 : 0;
    measScore = clamp(measScore + leanBonus);
  } else if (m && P.meas_target && P.meas_tol) {
    ...
    const sB = clamp(1 - dxB);
    const sW = clamp(1 - dxW);
    const sH = clamp(1 - dxH);
    measScore = clamp((sB + 1.2*sW + sH) / 3.2);
  }
  \<close>
\<close>

definition measScore_p001 :: "string \<Rightarrow> prefs \<Rightarrow> meas option \<Rightarrow> real" where
  "measScore_p001 GEN P m =
     (if GEN = ''male'' \<and> meas_bands P \<noteq> None \<and> m \<noteq> None then
        (let bs = the (meas_bands P); mm = the m;
             sB = bandScore (mB mm) (bandB bs);
             sW = bandScore (mW mm) (bandW bs);
             sH = bandScore (mH mm) (bandH bs);
             measScore = clamp01 ((sB + 1.3 * sW + sH) / 3.3);
             leanBonus = (if mW mm \<le> idealHi (bandW bs) \<and> mB mm \<le> idealHi (bandB bs)
                             \<and> mH mm \<le> idealHi (bandH bs) then 0.03 else 0)
         in clamp01 (measScore + leanBonus))
      else if m \<noteq> None \<and> meas_target P \<noteq> None \<and> meas_tol P \<noteq> None then
        (let mm = the m; t = the (meas_target P); tol = the (meas_tol P);
             dxB = \<bar>mB mm - mB t\<bar> / mB tol;
             dxW = \<bar>mW mm - mW t\<bar> / mW tol;
             dxH = \<bar>mH mm - mH t\<bar> / mH tol;
             sB = clamp01 (1 - dxB);
             sW = clamp01 (1 - dxW);
             sH = clamp01 (1 - dxH)
         in clamp01 ((sB + 1.2 * sW + sH) / 3.2))
      else 0)"

text \<open>
  The ideal range of a profile, in the words of the specification: for a banded profile,
  each value inside the \<^verbatim>\<open>ideal\<close> interval of its band; a target profile has no interval
  of its own, and its range is the target itself.
\<close>

definition inIdealRange :: "prefs \<Rightarrow> meas \<Rightarrow> bool" where
  "inIdealRange P m =
     (case meas_bands P of
        Some bs \<Rightarrow>
          idealLo (bandB bs) \<le> mB m \<and> mB m \<le> idealHi (bandB bs)
          \<and> idealLo (bandW bs) \<le> mW m \<and> mW m \<le> idealHi (bandW bs)
          \<and> idealLo (bandH bs) \<le> mH m \<and> mH m \<le> idealHi (bandH bs)
      | None \<Rightarrow>
          (case meas_target P of
             Some t \<Rightarrow> mB m = mB t \<and> mW m = mW t \<and> mH m = mH t
           | None \<Rightarrow> False))"

section \<open>Vector math\<close>

text \<open>
  An embedding is a vector of numbers. A cell of a \<^verbatim>\<open>Float32Array\<close> that the code computes
  can also hold \<open>NaN\<close> (the sum of a number and \<^verbatim>\<open>undefined\<close>): \<open>None\<close> stands for it.
\<close>

type_synonym vec = "real list"

type_synonym cells = "real option list"

text \<open>
  \<^verbatim>\<open>
  const cosine = (a, b) => {
    let dot = 0, na = 0, nb = 0;
    const L = Math.min(a.length, b.length);
    for (let i = 0; i < L; i++) {
      const x = a[i], y = b[i];
      dot += x * y; na += x * x; nb += y * y;
    }
    return (na && nb) ? dot / Math.sqrt(na * nb) : 0;
  };
  \<close>
  The three sums of the loop, over the common prefix of two vectors of numbers:
\<close>

definition cosineSums :: "vec \<Rightarrow> vec \<Rightarrow> real \<times> real \<times> real" where
  "cosineSums a b =
     fold (\<lambda>(x, y) (dot, na, nb). (dot + x * y, na + x * x, nb + y * y)) (zip a b) (0, 0, 0)"

text \<open>
  A \<open>NaN\<close> among the cells read makes \<open>na\<close> or \<open>nb\<close> a \<open>NaN\<close>, which is falsy, as \<open>0\<close> is.
\<close>

definition cosine :: "cells \<Rightarrow> cells \<Rightarrow> real" where
  "cosine a b =
     (let L = min (length a) (length b); xs = take L a; ys = take L b in
      if None \<in> set xs \<or> None \<in> set ys then 0
      else
        (case cosineSums (map the xs) (map the ys) of
           (dot, na, nb) \<Rightarrow> if na \<noteq> 0 \<and> nb \<noteq> 0 then dot / sqrt (na * nb) else 0))"

section \<open>Reference cache of the centroid variants\<close>

text \<open>
  The files \<^verbatim>\<open>part_000\<close> and \<^verbatim>\<open>part_002\<close> (second file) keep one centroid per reference
  folder: \<^verbatim>\<open>{ label, gender, size, centroid }\<close>.
\<close>

record cluster =
  c_label :: string
  c_gender :: string
  c_size :: nat
  c_centroid :: vec

text \<open>
  The errors of the remote embedding provider of \<^verbatim>\<open>part_001\<close>:
  \<^verbatim>\<open>hf_${resp.status}_${route}:${txt || "error"}\<close> (status, route, text), an error thrown by
  \<^verbatim>\<open>fetch\<close> or by the reading of the body, \<^verbatim>\<open>HUGGINGFACE_API_KEY missing\<close>,
  \<^verbatim>\<open>image_fetch_failed\<close>, \<^verbatim>\<open>hf_all_endpoints_failed\<close>, and \<^verbatim>\<open>throw last\<close> with nothing assigned.
\<close>

datatype embed_error =
    HfStatus nat string string
  | Thrown string
  | KeyMissing
  | ImageFetchFailed string
  | AllEndpointsFailed
  | ThrownUndefined

text \<open>What \<^verbatim>\<open>console.error\<close> and \<^verbatim>\<open>console.log\<close> receive.\<close>

datatype log_entry =
    EmbedFail string string string
  | AppEmbedFail string string
  | EmbedFailHf string string embed_error
  | AppEmbedFailHf string embed_error
  | HfTryFail string embed_error
  | Loaded "(string \<times> nat) list"

text \<open>The errors \<^verbatim>\<open>loadClusters\<close> can end with.\<close>

datatype build_error =
    CredentialsMissing
  | InvalidFoldersJson
  | ListFoldersFailed string
  | SearchFailed string
  | InvalidArrayLength

text \<open>
  The environment variable \<^verbatim>\<open>REFERENCE_FOLDERS_JSON\<close>: blank, text that \<^verbatim>\<open>JSON.parse\<close>
  rejects, or the array of names it denotes.
\<close>

datatype folders_json = Blank | Malformed | Folders "string list"

text \<open>
  The settings read from the process environment. Two of them have the same name and use
  in every file; the others are those of \<^verbatim>\<open>part_000\<close> (the second file of \<^verbatim>\<open>part_002\<close>
  calls them \<^verbatim>\<open>KEY\<close>, \<^verbatim>\<open>CLOUD_NAME\<close>, \<^verbatim>\<open>CLOUD_API_KEY\<close> and \<^verbatim>\<open>CLOUD_API_SECRET\<close>, and has
  no \<^verbatim>\<open>LIGHT_MODE\<close>). An unset string setting is the empty string.
\<close>

record base_config =
  ADMIN_TOKEN :: string
  REFERENCE_FOLDERS_JSON :: folders_json

record config = base_config +
  LIGHT_MODE :: bool
  EVALUATOR_API_KEY :: string
  CLOUDINARY_CLOUD_NAME :: string
  CLOUDINARY_API_KEY :: string
  CLOUDINARY_API_SECRET :: string
  MAX_REFS_PER_FOLDER :: int
  MAX_EMBEDS_CONCURRENCY :: int

text \<open>
  The collaborators outside the process. Every file has the two storage calls and
  \<^verbatim>\<open>parseInt(hash.slice(0, 6), 16)\<close> for the SHA-256 digest of a string; the centroid
  variants add the local embedding of the image behind a URL. A call that throws returns
  the message of its error. When several embeddings are awaited at once, which of them
  completes first is not in the hands of the code: \<open>firstDone\<close> gives, for the URLs whose
  embeddings are in flight, the position of the one that completes first (taken modulo
  their number).
\<close>

record storage =
  listRootFolders :: "string + string list"
  searchFolderAssets :: "string \<Rightarrow> string + string list"
  sha256_hex6 :: "string \<Rightarrow> nat"

record env = storage +
  embedOne :: "string \<Rightarrow> string + vec"
  firstDone :: "string list \<Rightarrow> nat"

text \<open>
  \<^verbatim>\<open>/^reference\s/i.test(n)\<close>. Of the characters that \<^verbatim>\<open>\s\<close> matches in JavaScript, a string
  of this theory (its characters have eight bits) can hold \<open>U+0009\<close> to \<open>U+000D\<close>, \<open>U+0020\<close>
  and \<open>U+00A0\<close>; the others (\<open>U+1680\<close>, \<open>U+2000\<close> to \<open>U+200A\<close>, \<open>U+2028\<close>, \<open>U+2029\<close>,
  \<open>U+202F\<close>, \<open>U+205F\<close>, \<open>U+3000\<close>, \<open>U+FEFF\<close>) are outside the type, as is every folder
  name that holds a character above \<open>U+00FF\<close>.
\<close>

definition isSpace :: "char \<Rightarrow> bool" where
  "isSpace c = (c \<in> {CHR '' '', CHR 0x09, CHR 0x0A, CHR 0x0B, CHR 0x0C, CHR 0x0D, CHR 0xA0})"

definition isReferenceName :: "string \<Rightarrow> bool" where
  "isReferenceName n =
     (toLowerCase (take 9 n) = ''reference'' \<and> (case drop 9 n of [] \<Rightarrow> False | c # _ \<Rightarrow> isSpace c))"

text \<open>
  \<^verbatim>\<open>
  async function discoverReferenceFolders() {
    if (REFERENCE_FOLDERS_JSON.trim()) {
      try { return JSON.parse(REFERENCE_FOLDERS_JSON); }
      catch { throw new Error("Invalid REFERENCE_FOLDERS_JSON"); }
    }
    const names = await listRootFolders();
    return names.filter(n => /^reference\s/i.test(n));
  }
  \<close>
\<close>

definition discoverReferenceFolders ::
  "'a base_config_scheme \<Rightarrow> 'b storage_scheme \<Rightarrow> build_error + string list" where
  "discoverReferenceFolders cfg e =
     (case REFERENCE_FOLDERS_JSON cfg of
        Folders names \<Rightarrow> Inr names
      | Malformed \<Rightarrow> Inl InvalidFoldersJson
      | Blank \<Rightarrow>
          (case listRootFolders e of
             Inl msg \<Rightarrow> Inl (ListFoldersFailed msg)
           | Inr names \<Rightarrow> Inr (filter isReferenceName names)))"

text \<open>
  \<^verbatim>\<open>for (let i = 0; i < v.length; i++) centroid[i] += v[i];\<close>
  A write past the end of the typed array \<^verbatim>\<open>centroid\<close> is dropped, and the cells of
  \<^verbatim>\<open>centroid\<close> past the end of \<open>v\<close> are not touched.
\<close>

definition addInto :: "vec \<Rightarrow> vec \<Rightarrow> vec" where
  "addInto centroid v = map (\<lambda>(x, y). x + y) (zip centroid v) @ drop (length v) centroid"

text \<open>
  One turn of a worker, for the URL \<open>u\<close> it took from the queue (\<open>cnt\<close> is the \<^verbatim>\<open>count\<close> of
  the source):
  \<^verbatim>\<open>
  try {
    const v = await embedOne(u);
    if (!centroid) centroid = new Float32Array(v.length);
    for (let i = 0; i < v.length; i++) centroid[i] += v[i];
    count++;
  } catch (e) {
    console.error("embed_fail", fname, u, e.message);
  }
  \<close>
\<close>

definition foldEmbedding ::
  "env \<Rightarrow> string \<Rightarrow> string \<Rightarrow> vec option \<times> nat \<times> log_entry list
     \<Rightarrow> vec option \<times> nat \<times> log_entry list" where
  "foldEmbedding e fname u acc =
     (case acc of (centroid, cnt, lg) \<Rightarrow>
        (case embedOne e u of
           Inl msg \<Rightarrow> (centroid, cnt, lg @ [EmbedFail fname u msg])
         | Inr v \<Rightarrow>
             (let c = (case centroid of None \<Rightarrow> replicate (length v) 0 | Some c \<Rightarrow> c)
              in (Some (addInto c v), cnt + 1, lg))))"

text \<open>
  The worker pool of one folder.
  \<^verbatim>\<open>
  let centroid = null;
  let count = 0;
  const queue = [...urls];
  const workers = Array(Math.min(MAX_EMBEDS_CONCURRENCY, urls.length)).fill(0).map(async () => {
    while (queue.length) { const u = queue.shift(); ... }
  });
  await Promise.all(workers);
  \<close>
  Every worker runs up to its first \<^verbatim>\<open>await\<close> when it is created, so the workers take the
  first URLs of the queue in turn. From then on, whenever an embedding completes, its
  worker folds the result in (or logs the failure) and takes the next URL of the queue, if
  there is one. The order in which the URLs are folded in, from the URLs in flight and the
  rest of the queue:
\<close>

lemma pool_shrinks:
  assumes "inflight \<noteq> []"
  shows "length (removeAt (k mod length inflight) inflight @ take 1 queue) + length (drop 1 queue)
         < length inflight + length queue"
proof -
  have "k mod length inflight < length inflight"
    using assms by simp
  then show ?thesis
    by (cases queue) (simp_all add: removeAt_def)
qed

function completionOrder :: "(string list \<Rightarrow> nat) \<Rightarrow> string list \<Rightarrow> string list \<Rightarrow> string list" where
  "completionOrder pick inflight queue =
     (if inflight = [] then []
      else inflight ! (pick inflight mod length inflight)
           # completionOrder pick
               (removeAt (pick inflight mod length inflight) inflight @ take 1 queue)
               (drop 1 queue))"
  by pat_completeness auto
termination
  apply (relation "measure (\<lambda>(pick, inflight, queue). length inflight + length queue)")
   apply simp
  apply (simp only: in_measure prod.case)
  apply (erule pool_shrinks)
  done

declare completionOrder.simps [simp del]

text \<open>
  \<^verbatim>\<open>Array(n)\<close> throws a \<^verbatim>\<open>RangeError\<close> for a negative \<open>n\<close>; with no worker nothing is
  embedded; with \<open>n\<close> workers the first \<open>n\<close> URLs are in flight at the start.
\<close>

definition runWorkers ::
  "config \<Rightarrow> env \<Rightarrow> string \<Rightarrow> string list \<Rightarrow> log_entry list
     \<Rightarrow> build_error + (vec option \<times> nat \<times> log_entry list)" where
  "runWorkers cfg e fname urls lg =
     (let n = min (MAX_EMBEDS_CONCURRENCY cfg) (int (length urls)) in
      if n < 0 then Inl InvalidArrayLength
      else if n = 0 then Inr (None, 0, lg)
      else Inr (fold (foldEmbedding e fname)
                  (completionOrder (firstDone e) (take (nat n) urls) (drop (nat n) urls))
                  (None, 0, lg)))"

text \<open>
  The body of \<^verbatim>\<open>for (const fname of folderNames)\<close>, on the list \<open>out\<close> built so far:
  \<^verbatim>\<open>
  const urlsAll = await searchFolderAssets(fname);
  if (!urlsAll.length) continue;
  const urls = urlsAll.slice(0, MAX_REFS_PER_FOLDER);
  const gender = inferGenderFromFolder(fname);
  ... the worker pool ...
  if (count > 0) {
    for (let i = 0; i < centroid.length; i++) centroid[i] /= count;
    out.push({ label: fname, gender, size: count, centroid });
  }
  \<close>
  Neither call is inside a \<^verbatim>\<open>try\<close>: an error of the listing or of \<^verbatim>\<open>Array(n)\<close> ends
  \<^verbatim>\<open>loadClusters\<close>.
\<close>

definition loadFolder ::
  "config \<Rightarrow> env \<Rightarrow> string \<Rightarrow> cluster list \<times> log_entry list
     \<Rightarrow> (build_error + cluster list) \<times> log_entry list" where
  "loadFolder cfg e fname acc =
     (case acc of (out, lg) \<Rightarrow>
        (case searchFolderAssets e fname of
           Inl msg \<Rightarrow> (Inl (SearchFailed msg), lg)
         | Inr urlsAll \<Rightarrow>
             if urlsAll = [] then (Inr out, lg)
             else
               (let urls = slice0 urlsAll (MAX_REFS_PER_FOLDER cfg);
                    gender = inferGenderFromFolder fname
                in case runWorkers cfg e fname urls lg of
                     Inl err \<Rightarrow> (Inl err, lg)
                   | Inr (centroid, cnt, lg') \<Rightarrow>
                       if cnt > 0
                       then (Inr (out @ [\<lparr>c_label = fname, c_gender = gender, c_size = cnt,
                                          c_centroid = map (\<lambda>x. x / real cnt) (the centroid)\<rparr>]),
                             lg')
                       else (Inr out, lg'))))"

text \<open>The loop over the folder names; it stops at the first error.\<close>

fun loadFolders ::
  "config \<Rightarrow> env \<Rightarrow> string list \<Rightarrow> cluster list \<times> log_entry list
     \<Rightarrow> (build_error + cluster list) \<times> log_entry list" where
  "loadFolders cfg e [] acc = (Inr (fst acc), snd acc)"
| "loadFolders cfg e (fname # rest) acc =
     (case loadFolder cfg e fname acc of
        (Inl err, lg) \<Rightarrow> (Inl err, lg)
      | (Inr out, lg) \<Rightarrow> loadFolders cfg e rest (out, lg))"

text \<open>The process state the cache builder works on: the published cache and the log.\<close>

record state =
  clusters :: "cluster list"
  logged :: "log_entry list"

text \<open>
  \<^verbatim>\<open>
  async function loadClusters() {
    if (!CLOUDINARY_CLOUD_NAME || !CLOUDINARY_API_KEY || !CLOUDINARY_API_SECRET) {
      throw new Error("Cloudinary credentials missing");
    }
    const folderNames = await discoverReferenceFolders();
    const out = [];
    for (const fname of folderNames) { ... }
    clusters.length = 0;
    clusters.push(...out);
    console.log("Loaded centroids:", clusters.map(c => `${c.label}(${c.size})`).join(", "));
  }
  \<close>
  The result is the error thrown, if any, and the state left behind.
\<close>

definition loadClusters :: "config \<Rightarrow> env \<Rightarrow> state \<Rightarrow> build_error option \<times> state" where
  "loadClusters cfg e st =
     (if CLOUDINARY_CLOUD_NAME cfg = [] \<or> CLOUDINARY_API_KEY cfg = [] \<or> CLOUDINARY_API_SECRET cfg = []
      then (Some CredentialsMissing, st)
      else
        (case discoverReferenceFolders cfg e of
           Inl err \<Rightarrow> (Some err, st)
         | Inr folderNames \<Rightarrow>
             (case loadFolders cfg e folderNames ([], logged st) of
                (Inl err, lg) \<Rightarrow> (Some err, st\<lparr>logged := lg\<rparr>)
              | (Inr out, lg) \<Rightarrow>
                  (None, \<lparr>clusters = out,
                          logged = lg @ [Loaded (map (\<lambda>c. (c_label c, c_size c)) out)]\<rparr>))))"

section \<open>Evaluation\<close>

subsection \<open>Requests and responses\<close>

text \<open>
  The parts of a \<^verbatim>\<open>POST /evaluate\<close> request the scoring reads: the \<^verbatim>\<open>Authorization\<close> header
  (empty when absent) and the body fields \<^verbatim>\<open>photos\<close>, \<^verbatim>\<open>gender\<close>, \<^verbatim>\<open>height_cm\<close> and
  \<^verbatim>\<open>measurements\<close>. A body whose \<^verbatim>\<open>photos\<close> is not an array is answered as the empty array
  is. The field \<^verbatim>\<open>age\<close> only appears in the \<^verbatim>\<open>details\<close> text of the response, which the
  model leaves out.
\<close>

record request =
  authorization :: string
  photos :: "string list"
  gender :: "string option"
  height_cm :: height_in
  measurements :: "string option"

record result =
  decision :: string
  confidence :: real
  reason :: string
  face_similarity :: real
  face_cluster :: string

text \<open>Status 401, status 400, or status 200 with the JSON result.\<close>

datatype response = Unauthorized | BadRequest | Ok200 result

text \<open>
  \<^verbatim>\<open>if (!KEY || !auth.startsWith("Bearer ") || auth.slice(7) !== KEY) return 401\<close>
\<close>

definition authorized :: "string \<Rightarrow> string \<Rightarrow> bool" where
  "authorized key auth = (key \<noteq> [] \<and> startsWith auth ''Bearer '' \<and> drop 7 auth = key)"

subsection \<open>Face similarity against centroids\<close>

text \<open>
  \<^verbatim>\<open>
  const photoVecs = [];
  for (const url of photos.slice(0, 5)) {
    try { photoVecs.push(await embedOne(url)); }
    catch (e) { console.error("app_embed_fail", url, e.message); }
  }
  \<close>
\<close>

definition embedPhotos :: "env \<Rightarrow> string list \<Rightarrow> vec list \<times> log_entry list" where
  "embedPhotos e urls =
     fold (\<lambda>url (photoVecs, lg).
             case embedOne e url of
               Inl msg \<Rightarrow> (photoVecs, lg @ [AppEmbedFail url msg])
             | Inr v \<Rightarrow> (photoVecs @ [v], lg))
          urls ([], [])"

text \<open>
  \<^verbatim>\<open>
  const dim = photoVecs[0].length;
  const avg = new Float32Array(dim);
  for (const v of photoVecs) for (let i = 0; i < dim; i++) avg[i] += v[i];
  for (let i = 0; i < dim; i++) avg[i] /= photoVecs.length;
  \<close>
  Reading \<^verbatim>\<open>v[i]\<close> past the end of \<open>v\<close> gives \<^verbatim>\<open>undefined\<close>, and the cell becomes \<open>NaN\<close>.
\<close>

definition addCells :: "vec \<Rightarrow> cells \<Rightarrow> cells" where
  "addCells v avg =
     map (\<lambda>i. case avg ! i of
                 None \<Rightarrow> None
               | Some s \<Rightarrow> if i < length v then Some (s + v ! i) else None)
         [0..<length avg]"

definition averageVecs :: "vec list \<Rightarrow> cells" where
  "averageVecs photoVecs =
     (case photoVecs of
        [] \<Rightarrow> []
      | v0 # _ \<Rightarrow>
          map (map_option (\<lambda>s. s / real (length photoVecs)))
              (fold addCells photoVecs (replicate (length v0) (Some 0))))"

text \<open>
  \<^verbatim>\<open>
  let maxSim = -1, bestLabel = "none";
  for (const c of clusters) {
    const s = cosine(avg, c.centroid);
    if (s > maxSim) { maxSim = s; bestLabel = c.label; }
  }
  \<close>
\<close>

definition bestCentroid :: "cells \<Rightarrow> cluster list \<Rightarrow> real \<times> string" where
  "bestCentroid avg cs =
     fold (\<lambda>c (maxSim, bestLabel).
             let s = cosine avg (map Some (c_centroid c)) in
             if s > maxSim then (s, c_label c) else (maxSim, bestLabel))
          cs (- 1, ''none'')"

text \<open>
  \<^verbatim>\<open>
  if (faceScore >= 0.70) faceReason = "face matches reference look";
  else if (faceScore >= 0.55) faceReason = "some similarity to reference look";
  else faceReason = "low similarity to reference look";
  \<close>
\<close>

definition faceReasonOf :: "real \<Rightarrow> string" where
  "faceReasonOf faceScore =
     (if faceScore \<ge> 0.70 then ''face matches reference look''
      else if faceScore \<ge> 0.55 then ''some similarity to reference look''
      else ''low similarity to reference look'')"

text \<open>
  The face block of \<^verbatim>\<open>part_000\<close> and of the second file of \<^verbatim>\<open>part_002\<close>; it yields
  \<^verbatim>\<open>faceScore\<close>, \<^verbatim>\<open>faceCluster\<close>, \<^verbatim>\<open>faceReason\<close> and what it logged.
  \<^verbatim>\<open>
  let faceScore = 0.5, faceCluster = "none", faceReason = "face similarity neutral";
  try {
    if (clusters.length) {
      ... photoVecs ...
      if (photoVecs.length) {
        ... avg, maxSim, bestLabel ...
        faceScore = clamp((maxSim + 1) / 2);
        faceCluster = bestLabel;
        ... faceReason by thresholds ...
      } else {
        faceReason = "no valid photos to analyze";
      }
    } else {
      faceReason = "no reference faces loaded";
    }
  } catch (e) { ... }
  \<close>
  Nothing inside the \<^verbatim>\<open>try\<close> throws on the values of the model, so the \<^verbatim>\<open>catch\<close> has no
  counterpart. The cache is read once, at the start.
\<close>

definition faceBlock ::
  "env \<Rightarrow> cluster list \<Rightarrow> string list \<Rightarrow> real \<times> string \<times> string \<times> log_entry list" where
  "faceBlock e cs phs =
     (if cs \<noteq> [] then
        (case embedPhotos e (take 5 phs) of (photoVecs, lg) \<Rightarrow>
           if photoVecs \<noteq> [] then
             (case bestCentroid (averageVecs photoVecs) cs of (maxSim, bestLabel) \<Rightarrow>
                (let faceScore = clamp01 ((maxSim + 1) / 2)
                 in (faceScore, bestLabel, faceReasonOf faceScore, lg)))
           else (0.5, ''none'', ''no valid photos to analyze'', lg))
      else (0.5, ''none'', ''no reference faces loaded'', []))"

subsection \<open>Photo count, tie-break, decision, reasons\<close>

text \<open>\<^verbatim>\<open>const photoBoost = clamp((nPhotos - 2) * 0.04, 0, 0.12);\<close>\<close>

definition photoBoost :: "nat \<Rightarrow> real" where
  "photoBoost nPhotos = clamp ((real nPhotos - 2) * 0.04) 0 0.12"

text \<open>
  \<^verbatim>\<open>
  const hash = crypto.createHash("sha256").update(photos.join("|")).digest("hex");
  const n = parseInt(hash.slice(0, 6), 16);
  const tinyNoise = (n % 100) / 10000;
  \<close>
\<close>

definition tinyNoise :: "'a storage_scheme \<Rightarrow> string list \<Rightarrow> real" where
  "tinyNoise e phs = real (sha256_hex6 e (join phs ''|'') mod 100) / 10000"

text \<open>
  \<^verbatim>\<open>confidence >= 0.70 ? "proceed" : confidence >= 0.45 ? "review" : "reject"\<close>
\<close>

definition decide :: "real \<Rightarrow> string" where
  "decide c = (if c \<ge> 0.70 then ''proceed'' else if c \<ge> 0.45 then ''review'' else ''reject'')"

text \<open>
  \<^verbatim>\<open>
  if (height_cm) {
    const hs = heightScore(height_cm);
    if (hs >= 0.75) reasons.push("height in editorial sweet spot");
    else if (hs >= 0.45) reasons.push("height within range");
    else reasons.push("height below preferred range");
  }
  \<close>
\<close>

definition heightReasons :: "height_prof \<Rightarrow> height_in \<Rightarrow> string list" where
  "heightReasons P h =
     (if truthyHeight h then
        (let hs = heightScoreFactory P h in
         if hs \<ge> 0.75 then [''height in editorial sweet spot'']
         else if hs \<ge> 0.45 then [''height within range'']
         else [''height below preferred range''])
      else [])"

text \<open>
  \<^verbatim>\<open>
  if (m) {
    if (measScore >= 0.75) reasons.push("measurements in ideal window");
    else if (measScore >= 0.45) reasons.push("measurements within acceptable band");
    else reasons.push("measurements outside preferred band");
  }
  \<close>
\<close>

definition measReasons :: "meas option \<Rightarrow> real \<Rightarrow> string list" where
  "measReasons m measScore =
     (if m \<noteq> None then
        (if measScore \<ge> 0.75 then [''measurements in ideal window'']
         else if measScore \<ge> 0.45 then [''measurements within acceptable band'']
         else [''measurements outside preferred band''])
      else [])"

text \<open>
  \<^verbatim>\<open>
  if (nPhotos >= 3) reasons.push("enough digitals provided");
  else if (nPhotos < 2) reasons.push("insufficient digitals");
  \<close>
\<close>

definition photoReasons :: "nat \<Rightarrow> string list" where
  "photoReasons nPhotos =
     (if nPhotos \<ge> 3 then [''enough digitals provided'']
      else if nPhotos < 2 then [''insufficient digitals'']
      else [])"

text \<open>\<^verbatim>\<open>Number(faceScore.toFixed(3))\<close>: three decimals, a tie rounded up.\<close>

definition toFixed3 :: "real \<Rightarrow> real" where
  "toFixed3 x = real_of_int (round (x * 1000)) / 1000"

text \<open>
  \<^verbatim>\<open>
  let confidence =
    0.40 * measScore +
    0.25 * heightScore(height_cm) +
    0.30 * faceScore +
    0.05 * (nPhotos ? 0.6 : 0) +
    photoBoost +
    tinyNoise;
  confidence = clamp(confidence);
  \<close>
\<close>

definition blend :: "real \<Rightarrow> real \<Rightarrow> real \<Rightarrow> nat \<Rightarrow> real \<Rightarrow> real" where
  "blend measScore hs faceScore nPhotos noise =
     clamp01 (0.40 * measScore + 0.25 * hs + 0.30 * faceScore
              + 0.05 * (if nPhotos \<noteq> 0 then 0.6 else 0) + photoBoost nPhotos + noise)"

subsection \<open>The handler of \<^verbatim>\<open>part_000\<close>\<close>

text \<open>
  After the checks of the key and of \<^verbatim>\<open>photos\<close>, \<^verbatim>\<open>LIGHT_MODE\<close> answers at once:
  \<^verbatim>\<open>
  if (LIGHT_MODE) {
    ...
    return res.status(200).json({
      decision: "review", confidence: 0.75, reason: "Endpoint OK; mock (LIGHT_MODE).",
      details: detailsString, details_text, face_similarity: 0.5, face_cluster: "none"
    });
  }
  \<close>
  Otherwise the scores are computed and blended. The reasons of this file have no entry
  for the number of photos.
\<close>

definition evaluate_p000 :: "config \<Rightarrow> env \<Rightarrow> cluster list \<Rightarrow> request \<Rightarrow> response" where
  "evaluate_p000 cfg e cs req =
     (if \<not> authorized (EVALUATOR_API_KEY cfg) (authorization req) then Unauthorized
      else if photos req = [] then BadRequest
      else if LIGHT_MODE cfg then
        Ok200 \<lparr>decision = ''review'', confidence = 0.75,
               reason = ''Endpoint OK; mock (LIGHT_MODE).'',
               face_similarity = 0.5, face_cluster = ''none''\<rparr>
      else
        (let GEN = resolveGEN (gender req);
             P = PREFS GEN;
             m = parseMeas (measurements req);
             measScore = measScore_p000 GEN P m
         in case faceBlock e cs (photos req) of (faceScore, faceCluster, faceReason, lg) \<Rightarrow>
           (let nPhotos = length (photos req);
                conf = blend measScore (heightScoreFactory (height P) (height_cm req)) faceScore
                         nPhotos (tinyNoise e (photos req));
                reasons = heightReasons (height P) (height_cm req) @ measReasons m measScore
                          @ [faceReason @ '' ('' @ faceCluster @ '')'']
            in Ok200 \<lparr>decision = decide conf, confidence = conf, reason = join reasons ''; '',
                      face_similarity = toFixed3 faceScore, face_cluster = faceCluster\<rparr>)))"

subsection \<open>The handler of the second file of \<^verbatim>\<open>part_002\<close>\<close>

text \<open>
  No \<^verbatim>\<open>LIGHT_MODE\<close>; the measurement score with the lean bonus; the reasons name the
  number of photos.
\<close>

definition evaluate_p002 :: "config \<Rightarrow> env \<Rightarrow> cluster list \<Rightarrow> request \<Rightarrow> response" where
  "evaluate_p002 cfg e cs req =
     (if \<not> authorized (EVALUATOR_API_KEY cfg) (authorization req) then Unauthorized
      else if photos req = [] then BadRequest
      else
        (let GEN = resolveGEN (gender req);
             P = PREFS GEN;
             m = parseMeas (measurements req);
             measScore = measScore_p001 GEN P m
         in case faceBlock e cs (photos req) of (faceScore, faceCluster, faceReason, lg) \<Rightarrow>
           (let nPhotos = length (photos req);
                conf = blend measScore (heightScoreFactory (height P) (height_cm req)) faceScore
                         nPhotos (tinyNoise e (photos req));
                reasons = heightReasons (height P) (height_cm req) @ measReasons m measScore
                          @ photoReasons nPhotos @ [faceReason @ '' ('' @ faceCluster @ '')'']
            in Ok200 \<lparr>decision = decide conf, confidence = conf, reason = join reasons ''; '',
                      face_similarity = toFixed3 faceScore, face_cluster = faceCluster\<rparr>)))"

subsection \<open>The older rule-only handler (first file of \<^verbatim>\<open>part_002\<close>)\<close>

text \<open>
  Its \<^verbatim>\<open>PREFS\<close> has a target and a tolerance for both genders:
  \<^verbatim>\<open>
  female: { height_cm: { min: 172, target: 177, max: 182 },
            meas_target: { b: 82, w: 60, h: 88 }, meas_tolerance: { b: 6, w: 4, h: 6 } },
  male:   { height_cm: { min: 182, target: 186, max: 192 },
            meas_target: { b: 96, w: 76, h: 94 }, meas_tolerance: { b: 8, w: 6, h: 8 } }
  \<close>
\<close>

definition PREFS_old :: "string \<Rightarrow> prefs" where
  "PREFS_old GENDER =
     (if GENDER = ''male'' then
        \<lparr>height = \<lparr>minH = 182, targetH = 186, maxH = 192\<rparr>,
         meas_target = Some \<lparr>mB = 96, mW = 76, mH = 94\<rparr>,
         meas_tol = Some \<lparr>mB = 8, mW = 6, mH = 8\<rparr>,
         meas_bands = None\<rparr>
      else PREFS_female)"

text \<open>
  \<^verbatim>\<open>
  const measScore = (() => {
    if (!m) return 0;
    const dxB = Math.abs(m.b - P.meas_target.b) / P.meas_tolerance.b;
    const dxW = Math.abs(m.w - P.meas_target.w) / P.meas_tolerance.w;
    const dxH = Math.abs(m.h - P.meas_target.h) / P.meas_tolerance.h;
    const sB = clamp(1 - dxB);
    const sW = clamp(1 - dxW);
    const sH = clamp(1 - dxH);
    return clamp((sB + 1.2 * sW + sH) / 3.2);
  })();
  \<close>
\<close>

definition measScore_old :: "prefs \<Rightarrow> meas option \<Rightarrow> real" where
  "measScore_old P m =
     (case m of
        None \<Rightarrow> 0
      | Some mm \<Rightarrow>
          (let t = the (meas_target P); tol = the (meas_tol P);
               dxB = \<bar>mB mm - mB t\<bar> / mB tol;
               dxW = \<bar>mW mm - mW t\<bar> / mW tol;
               dxH = \<bar>mH mm - mH t\<bar> / mH tol;
               sB = clamp01 (1 - dxB);
               sW = clamp01 (1 - dxW);
               sH = clamp01 (1 - dxH)
           in clamp01 ((sB + 1.2 * sW + sH) / 3.2)))"

text \<open>
  \<^verbatim>\<open>
  let confidence =
    0.55 * measScore +
    0.35 * heightScore(height_cm) +
    0.10 * (photoCount > 0 ? 0.6 : 0) +
    photoCountBoost +
    tinyNoise;
  confidence = clamp(confidence);
  \<close>
\<close>

definition blend_old :: "real \<Rightarrow> real \<Rightarrow> nat \<Rightarrow> real \<Rightarrow> real" where
  "blend_old measScore hs photoCount noise =
     clamp01 (0.55 * measScore + 0.35 * hs + 0.10 * (if photoCount > 0 then 0.6 else 0)
              + photoBoost photoCount + noise)"

text \<open>
  \<^verbatim>\<open>
  if (m) {
    if (measScore >= 0.75) reasons.push("measurements close to target");
    else if (measScore >= 0.45) reasons.push("measurements acceptable");
    else reasons.push("measurements outside preferred band");
  }
  if (photoCount >= 3) reasons.push("enough digitals provided");
  if (photoCount < 2) reasons.push("insufficient digitals");
  \<close>
\<close>

definition measReasons_old :: "meas option \<Rightarrow> real \<Rightarrow> string list" where
  "measReasons_old m measScore =
     (if m \<noteq> None then
        (if measScore \<ge> 0.75 then [''measurements close to target'']
         else if measScore \<ge> 0.45 then [''measurements acceptable'']
         else [''measurements outside preferred band''])
      else [])"

text \<open>The response of the older handler: \<^verbatim>\<open>{ decision, confidence, reason, details }\<close>.\<close>

record result_old =
  decision_old :: string
  confidence_old :: real
  reason_old :: string

datatype response_old = Unauthorized_old | BadRequest_old | Ok200_old result_old

text \<open>
  The handler; its height score has the text of \<^verbatim>\<open>heightScoreFactory\<close>, on
  \<^verbatim>\<open>P.height_cm\<close>. The \<^verbatim>\<open>HEAD\<close> request for the first photo has no effect on the answer.
\<close>

definition evaluate_old :: "string \<Rightarrow> 'a storage_scheme \<Rightarrow> request \<Rightarrow> response_old" where
  "evaluate_old key e req =
     (if \<not> authorized key (authorization req) then Unauthorized_old
      else if photos req = [] then BadRequest_old
      else
        (let GENDER = resolveGEN (gender req);
             P = PREFS_old GENDER;
             m = parseMeas (measurements req);
             measScore = measScore_old P m;
             photoCount = length (photos req);
             conf = blend_old measScore (heightScoreFactory (height P) (height_cm req))
                      photoCount (tinyNoise e (photos req));
             reasons = heightReasons (height P) (height_cm req) @ measReasons_old m measScore
                       @ (if photoCount \<ge> 3 then [''enough digitals provided''] else [])
                       @ (if photoCount < 2 then [''insufficient digitals''] else [])
         in Ok200_old \<lparr>decision_old = decide conf, confidence_old = conf,
                       reason_old = join reasons ''; ''\<rparr>))"

section \<open>The remote embedding provider (\<^verbatim>\<open>part_001\<close>)\<close>

subsection \<open>Settings, collaborators and state\<close>

record config_hf = base_config +
  KEY :: string
  HF_KEY :: string
  CLOUD_NAME :: string
  CLOUD_API_KEY :: string
  CLOUD_API_SECRET :: string
  HF_MODEL_ENV :: string

text \<open>
  The body of an answer of the inference API, once \<^verbatim>\<open>resp.json()\<close> has parsed it: any
  JSON value. The members of an object are kept in the order of the text.
\<close>

datatype json = JNull | JBool bool | JNum real | JStr string | JArr "json list"
  | JObj "(string \<times> json) list"

text \<open>
  What one \<^verbatim>\<open>POST\<close> to a route comes to: \<^verbatim>\<open>resp.ok\<close> with a body that parses, a status
  that is not \<^verbatim>\<open>ok\<close> with the text of its body, or an error thrown by \<^verbatim>\<open>fetch\<close>,
  \<^verbatim>\<open>resp.json()\<close> or \<^verbatim>\<open>resp.text()\<close>.
\<close>

datatype hf_resp = RespOk json | RespStatus nat string | RespThrows string

text \<open>
  The collaborators of this file: the storage, the fetch of the image bytes behind a URL
  (after its Cloudinary resizing), and the inference API. The answer of the API may
  change from one request to the next: it is a function of the number of requests made
  before, of the route and of the bytes sent. The last field stands for the language:
  what \<^verbatim>\<open>poolToVector\<close> makes of a body whose conversion goes through the string conversions
  of JavaScript (see \<open>poolToVector\<close> below), a vector or an exception.
\<close>

record env_hf = storage +
  fetchImageBuffer :: "string \<Rightarrow> string + string"
  hfFetch :: "nat \<Rightarrow> string \<Rightarrow> string \<Rightarrow> hf_resp"
  viaStrings :: "json \<Rightarrow> string + cells"

text \<open>A reference group of this file: \<^verbatim>\<open>{ label, gender, urls, vecs }\<close>.\<close>

record ref_group =
  r_label :: string
  r_gender :: string
  r_urls :: "string list"
  r_vecs :: "cells list"

text \<open>
  The process state: the memo \<^verbatim>\<open>embedCache\<close>, the groups \<^verbatim>\<open>clusters\<close>, the log, and two
  counters of the model: the requests sent to the inference API so far, and the delays
  handed to \<^verbatim>\<open>setTimeout\<close>, in milliseconds.
\<close>

record state_hf =
  embedCache :: "string \<rightharpoonup> cells"
  groups :: "ref_group list"
  logged_hf :: "log_entry list"
  requests :: nat
  sleeps :: "nat list"

subsection \<open>Models and routes\<close>

text \<open>
  \<^verbatim>\<open>
  const HF_MODELS = [
    HF_MODEL_ENV || "sentence-transformers/clip-ViT-B-32",
    "laion/CLIP-ViT-B-32-laion2B-s34B-b79K",
    "openai/clip-vit-base-patch32"
  ];
  const HF_ROUTES = (modelId) => [
    `https://api-inference.huggingface.co/pipeline/image-feature-extraction/${modelId}`,
    `https://api-inference.huggingface.co/pipeline/feature-extraction/${modelId}`,
    `https://api-inference.huggingface.co/models/${modelId}`
  ];
  \<close>
\<close>

definition HF_MODELS :: "'a config_hf_scheme \<Rightarrow> string list" where
  "HF_MODELS cfg =
     [if HF_MODEL_ENV cfg = [] then ''sentence-transformers/clip-ViT-B-32'' else HF_MODEL_ENV cfg,
      ''laion/CLIP-ViT-B-32-laion2B-s34B-b79K'',
      ''openai/clip-vit-base-patch32'']"

definition HF_ROUTES :: "string \<Rightarrow> string list" where
  "HF_ROUTES modelId =
     [''https://api-inference.huggingface.co/pipeline/image-feature-extraction/'' @ modelId,
      ''https://api-inference.huggingface.co/pipeline/feature-extraction/'' @ modelId,
      ''https://api-inference.huggingface.co/models/'' @ modelId]"

text \<open>
  The order in which the two nested loops of \<^verbatim>\<open>getEmbedding\<close> visit the backends: every
  route of the first model, then every route of the second, then of the third.
\<close>

definition backends :: "'a config_hf_scheme \<Rightarrow> (string \<times> string) list" where
  "backends cfg = concat (map (\<lambda>model. map (\<lambda>route. (model, route)) (HF_ROUTES model)) (HF_MODELS cfg))"

subsection \<open>Pooling\<close>

text \<open>
  \<^verbatim>\<open>
  function poolToVector(jsonOut) {
    if (Array.isArray(jsonOut) && Array.isArray(jsonOut[0])) {
      const rows = jsonOut.length, cols = jsonOut[0].length;
      const v = new Float32Array(cols);
      for (let i=0;i<rows;i++){
        const row = jsonOut[i];
        for (let j=0;j<cols;j++) v[j] += row[j];
      }
      for (let j=0;j<cols;j++) v[j] /= rows;
      return v;
    }
    return Float32Array.from(jsonOut);
  }
  \<close>
  Nothing checks the shape of the body. A number, \<^verbatim>\<open>null\<close> and a boolean are converted to a
  number without a detour (\<^verbatim>\<open>null\<close> and \<^verbatim>\<open>false\<close> to 0, \<^verbatim>\<open>true\<close> to 1), both by \<^verbatim>\<open>+=\<close>
  and by the store into a typed array; \<^verbatim>\<open>undefined\<close> gives \<open>NaN\<close>.
\<close>

fun plain :: "json \<Rightarrow> bool" where
  "plain (JNum x) = True"
| "plain JNull = True"
| "plain (JBool b) = True"
| "plain (JStr s) = False"
| "plain (JArr xs) = False"
| "plain (JObj kvs) = False"

fun toNumber :: "json \<Rightarrow> real" where
  "toNumber (JNum x) = x"
| "toNumber (JBool b) = (if b then 1 else 0)"
| "toNumber j = 0"

text \<open>
  A row of the first branch whose cells \<^verbatim>\<open>row[j]\<close> are plain or \<^verbatim>\<open>undefined\<close>: an array of
  plain values, or a number or a boolean (every \<^verbatim>\<open>row[j]\<close> is \<^verbatim>\<open>undefined\<close> then); and the
  values it holds. Reading \<^verbatim>\<open>row[j]\<close> of the row \<^verbatim>\<open>null\<close> throws a \<^verbatim>\<open>TypeError\<close>.
\<close>

definition plainRow :: "json \<Rightarrow> bool" where
  "plainRow r = (case r of JArr ys \<Rightarrow> list_all plain ys | JNum x \<Rightarrow> True | JBool b \<Rightarrow> True
                 | _ \<Rightarrow> False)"

definition rowValues :: "json \<Rightarrow> vec" where
  "rowValues r = (case r of JArr ys \<Rightarrow> map toNumber ys | _ \<Rightarrow> [])"

text \<open>
  \<^verbatim>\<open>Float32Array.from\<close> of a string stores its characters one by one, each converted as a
  string of one character: a digit gives its value, white space gives 0, any other
  character \<open>NaN\<close>.
\<close>

definition charToNumber :: "char \<Rightarrow> real option" where
  "charToNumber c =
     (if isDigit c then Some (real (digitVal c)) else if isSpace c then Some 0 else None)"

text \<open>
  The function, with the exception it throws or the vector it returns. The message of a
  \<^verbatim>\<open>TypeError\<close> depends on the engine; it is written \<^verbatim>\<open>TypeError\<close> here.
  \<^item> First branch (an array whose first element is an array): with no column the loops
    touch nothing; a row \<^verbatim>\<open>null\<close> ends the function with a \<^verbatim>\<open>TypeError\<close>; rows that are
    plain are summed as in \<open>addCells\<close>, a row shorter than the first leaving \<open>NaN\<close> in the
    cells it lacks.
  \<^item> \<^verbatim>\<open>Float32Array.from\<close>: \<^verbatim>\<open>null\<close> throws a \<^verbatim>\<open>TypeError\<close>; a number and a boolean are neither
    iterable nor array-like and give the empty vector, and so does an object with no
    member \<^verbatim>\<open>length\<close>; an array gives the numbers of its elements.
  \<^item> Every other body (a string, an array or an object among the values to convert, an
    object with a member \<^verbatim>\<open>length\<close>) is converted through strings, which is left to
    \<open>viaStrings\<close>.
\<close>

fun poolToVector :: "(json \<Rightarrow> string + cells) \<Rightarrow> json \<Rightarrow> string + cells" where
  "poolToVector via (JArr (JArr r0 # rs)) =
     (if r0 = [] then Inr []
      else if JNull \<in> set rs then Inl ''TypeError''
      else if list_all plainRow (JArr r0 # rs)
      then Inr (map (map_option (\<lambda>s. s / real (length (JArr r0 # rs))))
                  (fold addCells (map rowValues (JArr r0 # rs)) (replicate (length r0) (Some 0))))
      else via (JArr (JArr r0 # rs)))"
| "poolToVector via (JArr xs) =
     (if list_all plain xs then Inr (map (\<lambda>x. Some (toNumber x)) xs) else via (JArr xs))"
| "poolToVector via JNull = Inl ''TypeError''"
| "poolToVector via (JBool b) = Inr []"
| "poolToVector via (JNum x) = Inr []"
| "poolToVector via (JStr s) = Inr (map charToNumber s)"
| "poolToVector via (JObj kvs) =
     (if ''length'' \<in> fst ` set kvs then via (JObj kvs) else Inr [])"

subsection \<open>One backend: tries and backoff\<close>

definition maxAttempts :: nat where
  "maxAttempts = 3"

text \<open>\<^verbatim>\<open>[500, 502, 503, 504].includes(resp.status)\<close>\<close>

definition retryable :: "nat \<Rightarrow> bool" where
  "retryable status = (status \<in> set [500, 502, 503, 504])"

text \<open>
  \<^verbatim>\<open>
  async function tryEmbed(route, buf) {
    const maxAttempts = 3;
    let last;
    for (let attempt = 1; attempt <= maxAttempts; attempt++) {
      const resp = await fetch(route, { method: "POST", headers: {...}, body: buf });
      if (resp.ok) {
        const data = await resp.json();
        return poolToVector(data);
      }
      const txt = await resp.text();
      last = new Error(`hf_${resp.status}_${route}:${txt || "error"}`);
      if ([500, 502, 503, 504].includes(resp.status) && attempt < maxAttempts) {
        await new Promise(r => setTimeout(r, 400 * attempt));
        continue;
      }
      throw last;
    }
    throw last;
  }
  \<close>
  The loop, from the attempt it is at, with the value of \<^verbatim>\<open>last\<close>; an exception of
  \<^verbatim>\<open>poolToVector\<close> leaves \<^verbatim>\<open>tryEmbed\<close> as any other:
\<close>

function tryEmbedFrom ::
  "'a env_hf_scheme \<Rightarrow> string \<Rightarrow> string \<Rightarrow> nat \<Rightarrow> embed_error option \<Rightarrow> state_hf
     \<Rightarrow> (embed_error + cells) \<times> state_hf" where
  "tryEmbedFrom e route buf attempt lastE st =
     (if attempt \<le> maxAttempts then
        (let st1 = st\<lparr>requests := requests st + 1\<rparr> in
         case hfFetch e (requests st) route buf of
           RespOk data \<Rightarrow>
             (case poolToVector (viaStrings e) data of
                Inl msg \<Rightarrow> (Inl (Thrown msg), st1)
              | Inr vec \<Rightarrow> (Inr vec, st1))
         | RespThrows msg \<Rightarrow> (Inl (Thrown msg), st1)
         | RespStatus status txt \<Rightarrow>
             (let err = HfStatus status route (if txt = [] then ''error'' else txt) in
              if retryable status \<and> attempt < maxAttempts
              then tryEmbedFrom e route buf (attempt + 1) (Some err)
                     (st1\<lparr>sleeps := sleeps st1 @ [400 * attempt]\<rparr>)
              else (Inl err, st1)))
      else (Inl (case lastE of Some err \<Rightarrow> err | None \<Rightarrow> ThrownUndefined), st))"
  by pat_completeness auto
termination
  by (relation "measure (\<lambda>(e, route, buf, attempt, lastE, st). Suc maxAttempts - attempt)") auto

declare tryEmbedFrom.simps [simp del]

definition tryEmbed ::
  "'a env_hf_scheme \<Rightarrow> string \<Rightarrow> string \<Rightarrow> state_hf \<Rightarrow> (embed_error + cells) \<times> state_hf" where
  "tryEmbed e route buf st = tryEmbedFrom e route buf 1 None st"

subsection \<open>All backends, in order\<close>

text \<open>
  \<^verbatim>\<open>
  for (const model of HF_MODELS) {
    const routes = HF_ROUTES(model);
    for (const route of routes) {
      try {
        const vec = await tryEmbed(route, buf);
        embedCache.set(url, vec);
        return vec;
      } catch (e) {
        lastErr = e;
        console.error("hf_try_fail", model, e.message);
      }
    }
  }
  throw lastErr || new Error("hf_all_endpoints_failed");
  \<close>
\<close>

fun tryBackends ::
  "'a env_hf_scheme \<Rightarrow> string \<Rightarrow> string \<Rightarrow> (string \<times> string) list \<Rightarrow> embed_error option
     \<Rightarrow> state_hf \<Rightarrow> (embed_error + cells) \<times> state_hf" where
  "tryBackends e url buf [] lastErr st =
     (Inl (case lastErr of Some err \<Rightarrow> err | None \<Rightarrow> AllEndpointsFailed), st)"
| "tryBackends e url buf ((model, route) # rest) lastErr st =
     (case tryEmbed e route buf st of
        (Inr vec, st1) \<Rightarrow> (Inr vec, st1\<lparr>embedCache := (embedCache st1)(url \<mapsto> vec)\<rparr>)
      | (Inl err, st1) \<Rightarrow>
          tryBackends e url buf rest (Some err)
            (st1\<lparr>logged_hf := logged_hf st1 @ [HfTryFail model err]\<rparr>))"

text \<open>
  \<^verbatim>\<open>
  async function getEmbedding(url) {
    if (embedCache.has(url)) return embedCache.get(url);
    if (!HF_KEY) throw new Error("HUGGINGFACE_API_KEY missing");
    const buf = await fetchImageBuffer(url);
    let lastErr;
    ... the two loops ...
  }
  \<close>
\<close>

definition getEmbedding ::
  "'a config_hf_scheme \<Rightarrow> 'b env_hf_scheme \<Rightarrow> string \<Rightarrow> state_hf
     \<Rightarrow> (embed_error + cells) \<times> state_hf" where
  "getEmbedding cfg e url st =
     (case embedCache st url of
        Some vec \<Rightarrow> (Inr vec, st)
      | None \<Rightarrow>
          if HF_KEY cfg = [] then (Inl KeyMissing, st)
          else
            (case fetchImageBuffer e url of
               Inl msg \<Rightarrow> (Inl (ImageFetchFailed msg), st)
             | Inr buf \<Rightarrow> tryBackends e url buf (backends cfg) None st))"

subsection \<open>The cache of reference vectors\<close>

text \<open>
  \<^verbatim>\<open>
  const vecs = [];
  for (const u of urls) {
    try { vecs.push(await getEmbedding(u)); }
    catch (e) { console.error("embed_fail", fname, u, e.message); }
  }
  \<close>
\<close>

fun embedAll ::
  "'a config_hf_scheme \<Rightarrow> 'b env_hf_scheme \<Rightarrow> string \<Rightarrow> string list \<Rightarrow> cells list \<Rightarrow> state_hf
     \<Rightarrow> cells list \<times> state_hf" where
  "embedAll cfg e fname [] vecs st = (vecs, st)"
| "embedAll cfg e fname (u # us) vecs st =
     (case getEmbedding cfg e u st of
        (Inr vec, st1) \<Rightarrow> embedAll cfg e fname us (vecs @ [vec]) st1
      | (Inl err, st1) \<Rightarrow>
          embedAll cfg e fname us vecs (st1\<lparr>logged_hf := logged_hf st1 @ [EmbedFailHf fname u err]\<rparr>))"

text \<open>
  \<^verbatim>\<open>
  for (const fname of folderNames) {
    const urls = await searchFolderAssets(fname);
    if (!urls.length) continue;
    const gender = inferGenderFromFolder(fname);
    ... vecs ...
    if (vecs.length) out.push({ label: fname, gender, urls, vecs });
  }
  \<close>
\<close>

fun loadFolders_p001 ::
  "'a config_hf_scheme \<Rightarrow> 'b env_hf_scheme \<Rightarrow> string list \<Rightarrow> ref_group list \<Rightarrow> state_hf
     \<Rightarrow> (build_error + ref_group list) \<times> state_hf" where
  "loadFolders_p001 cfg e [] out st = (Inr out, st)"
| "loadFolders_p001 cfg e (fname # rest) out st =
     (case searchFolderAssets e fname of
        Inl msg \<Rightarrow> (Inl (SearchFailed msg), st)
      | Inr urls \<Rightarrow>
          if urls = [] then loadFolders_p001 cfg e rest out st
          else
            (case embedAll cfg e fname urls [] st of (vecs, st1) \<Rightarrow>
               loadFolders_p001 cfg e rest
                 (if vecs \<noteq> []
                  then out @ [\<lparr>r_label = fname, r_gender = inferGenderFromFolder fname,
                               r_urls = urls, r_vecs = vecs\<rparr>]
                  else out)
                 st1))"

text \<open>
  \<^verbatim>\<open>loadClusters\<close> of this file: the same frame as in the centroid variants.
\<close>

definition loadClusters_p001 ::
  "'a config_hf_scheme \<Rightarrow> 'b env_hf_scheme \<Rightarrow> state_hf \<Rightarrow> build_error option \<times> state_hf" where
  "loadClusters_p001 cfg e st =
     (if CLOUD_NAME cfg = [] \<or> CLOUD_API_KEY cfg = [] \<or> CLOUD_API_SECRET cfg = []
      then (Some CredentialsMissing, st)
      else
        (case discoverReferenceFolders cfg e of
           Inl err \<Rightarrow> (Some err, st)
         | Inr folderNames \<Rightarrow>
             (case loadFolders_p001 cfg e folderNames [] st of
                (Inl err, st1) \<Rightarrow> (Some err, st1)
              | (Inr out, st1) \<Rightarrow>
                  (None, st1\<lparr>groups := out,
                             logged_hf := logged_hf st1
                               @ [Loaded (map (\<lambda>c. (r_label c, length (r_vecs c))) out)]\<rparr>))))"

subsection \<open>Face similarity against reference vectors\<close>

text \<open>
  \<^verbatim>\<open>
  const pool = clusters.some(c => c.gender !== "unknown")
    ? clusters.filter(c => c.gender === GEN || c.gender === "unknown")
    : clusters;
  \<close>
\<close>

definition candidatePool :: "string \<Rightarrow> ref_group list \<Rightarrow> ref_group list" where
  "candidatePool GEN cs =
     (if list_ex (\<lambda>c. r_gender c \<noteq> ''unknown'') cs
      then filter (\<lambda>c. r_gender c = GEN \<or> r_gender c = ''unknown'') cs
      else cs)"

text \<open>
  \<^verbatim>\<open>
  const photoVecs = [];
  for (const url of photos) {
    try { photoVecs.push(await getEmbedding(url)); }
    catch (e) { console.error("app_embed_fail", url, e.message); }
  }
  \<close>
\<close>

fun embedPhotos_p001 ::
  "'a config_hf_scheme \<Rightarrow> 'b env_hf_scheme \<Rightarrow> string list \<Rightarrow> cells list \<Rightarrow> state_hf
     \<Rightarrow> cells list \<times> state_hf" where
  "embedPhotos_p001 cfg e [] photoVecs st = (photoVecs, st)"
| "embedPhotos_p001 cfg e (url # urls) photoVecs st =
     (case getEmbedding cfg e url st of
        (Inr vec, st1) \<Rightarrow> embedPhotos_p001 cfg e urls (photoVecs @ [vec]) st1
      | (Inl err, st1) \<Rightarrow>
          embedPhotos_p001 cfg e urls photoVecs
            (st1\<lparr>logged_hf := logged_hf st1 @ [AppEmbedFailHf url err]\<rparr>))"

text \<open>
  \<^verbatim>\<open>
  let maxSim = -1, bestLabel = "none";
  for (const pv of photoVecs) {
    for (const c of pool) {
      for (const rv of c.vecs) {
        const s = cosine(pv, rv);
        if (s > maxSim) { maxSim = s; bestLabel = c.label; }
      }
    }
  }
  \<close>
  The three loops, innermost first.
\<close>

definition bestOverVecs :: "cells \<Rightarrow> ref_group \<Rightarrow> real \<times> string \<Rightarrow> real \<times> string" where
  "bestOverVecs pv c acc =
     fold (\<lambda>rv (maxSim, bestLabel).
             let s = cosine pv rv in
             if s > maxSim then (s, r_label c) else (maxSim, bestLabel))
          (r_vecs c) acc"

definition bestOverPool :: "ref_group list \<Rightarrow> cells \<Rightarrow> real \<times> string \<Rightarrow> real \<times> string" where
  "bestOverPool pool pv acc = fold (bestOverVecs pv) pool acc"

definition bestMatch :: "cells list \<Rightarrow> ref_group list \<Rightarrow> real \<times> string" where
  "bestMatch photoVecs pool = fold (bestOverPool pool) photoVecs (- 1, ''none'')"

text \<open>
  The face block of this file:
  \<^verbatim>\<open>
  let faceScore = 0.5, faceCluster = "none", faceReason = "face similarity neutral";
  try {
    if (clusters.length) {
      ... pool, photoVecs, maxSim, bestLabel ...
      if (maxSim >= -1) {
        faceScore = clamp((maxSim + 1) / 2);
        faceCluster = bestLabel;
        ... faceReason by thresholds ...
      }
    } else {
      faceReason = "no reference faces loaded";
    }
  } catch (e) { ... }
  \<close>
\<close>

definition faceBlock_p001 ::
  "'a config_hf_scheme \<Rightarrow> 'b env_hf_scheme \<Rightarrow> string \<Rightarrow> string list \<Rightarrow> state_hf
     \<Rightarrow> (real \<times> string \<times> string) \<times> state_hf" where
  "faceBlock_p001 cfg e GEN phs st =
     (if groups st \<noteq> [] then
        (let pool = candidatePool GEN (groups st) in
         case embedPhotos_p001 cfg e phs [] st of (photoVecs, st1) \<Rightarrow>
           (case bestMatch photoVecs pool of (maxSim, bestLabel) \<Rightarrow>
              if maxSim \<ge> - 1 then
                (let faceScore = clamp01 ((maxSim + 1) / 2)
                 in ((faceScore, bestLabel, faceReasonOf faceScore), st1))
              else ((0.5, ''none'', ''face similarity neutral''), st1)))
      else ((0.5, ''none'', ''no reference faces loaded''), st))"

subsection \<open>The handler of \<^verbatim>\<open>part_001\<close>\<close>

definition evaluate_p001 ::
  "'a config_hf_scheme \<Rightarrow> 'b env_hf_scheme \<Rightarrow> state_hf \<Rightarrow> request \<Rightarrow> response \<times> state_hf" where
  "evaluate_p001 cfg e st req =
     (if \<not> authorized (KEY cfg) (authorization req) then (Unauthorized, st)
      else if photos req = [] then (BadRequest, st)
      else
        (let GEN = resolveGEN (gender req);
             P = PREFS GEN;
             m = parseMeas (measurements req);
             measScore = measScore_p001 GEN P m
         in case faceBlock_p001 cfg e GEN (photos req) st of
              ((faceScore, faceCluster, faceReason), st1) \<Rightarrow>
           (let nPhotos = length (photos req);
                conf = blend measScore (heightScoreFactory (height P) (height_cm req)) faceScore
                         nPhotos (tinyNoise e (photos req));
                reasons = heightReasons (height P) (height_cm req) @ measReasons m measScore
                          @ photoReasons nPhotos @ [faceReason @ '' ('' @ faceCluster @ '')'']
            in (Ok200 \<lparr>decision = decide conf, confidence = conf, reason = join reasons ''; '',
                       face_similarity = toFixed3 faceScore, face_cluster = faceCluster\<rparr>,
                st1))))"

section \<open>Builds in flight\<close>

text \<open>
  The handler of \<^verbatim>\<open>GET /admin/reload_refs\<close> of \<^verbatim>\<open>part_000\<close>:
  \<^verbatim>\<open>
  app.get("/admin/reload_refs", async (req, res) => {
    if (req.query.token !== ADMIN_TOKEN) return res.status(401).json({ error: "Unauthorized" });
    if (LIGHT_MODE) return res.json({ ok: true, skipped: "LIGHT_MODE" });
    try {
      await loadClusters();
      res.json({ ok: true, clusters: clusters.map(...) });
    } catch (e) { ... res.status(500) ... }
  });
  \<close>
  Node runs one piece of code at a time and switches between calls only where a call
  awaits. A call of \<^verbatim>\<open>loadClusters\<close> awaits the discovery of the folders, then, for each
  folder, the listing and the embeddings; it keeps \<^verbatim>\<open>folderNames\<close>, \<^verbatim>\<open>out\<close> and the variables
  of a folder in its own frame, and touches the shared array \<^verbatim>\<open>clusters\<close> only in its last
  two statements, which follow the work on the last folder (or the discovery, when there
  is no folder) with no \<^verbatim>\<open>await\<close> in between.

  The model counts the turns of the event loop. In a turn either a request arrives or one
  call in flight is resumed and runs up to the end of its next folder, and, if that was
  its last, on to the replacement of the cache. What the storage and the embedding answer
  may change from one turn to the next: a world gives the collaborators of every turn.
  (Within the work on one folder they are taken not to change, and that work is one turn,
  although it awaits several times: between its awaits a call reads and writes nothing
  that another call can see.) The second file of \<^verbatim>\<open>part_002\<close> has the same handler without
  the \<^verbatim>\<open>LIGHT_MODE\<close> line: its server is this one with \<^verbatim>\<open>LIGHT_MODE\<close> off.
\<close>

type_synonym world = "nat \<Rightarrow> env"

text \<open>
  A call in flight is about to learn the folders, or has folders left to visit and holds
  its \<^verbatim>\<open>out\<close> and what it has logged. The first field of \<open>Loading\<close> and the field
  \<open>publishedBy\<close> of the server are bookkeeping for the statements below, which no step
  reads: the turns at which the call has run so far, and the turns at which the call ran
  that replaced the cache last (none when no call has).
\<close>

datatype build = Discovering | Loading "nat list" "string list" "cluster list" "log_entry list"

record server =
  published :: "cluster list"
  publishedBy :: "nat list"
  inflight :: "build list"
  turn :: nat

datatype event = ReloadRequest string | Resume nat

text \<open>
  A request that passes the two checks calls \<^verbatim>\<open>loadClusters\<close>, which throws at once when
  the storage settings are missing and otherwise awaits the discovery. Nothing looks at
  the calls already in flight.
\<close>

definition reloadRequest :: "config \<Rightarrow> string \<Rightarrow> server \<Rightarrow> server" where
  "reloadRequest cfg token s =
     (if token \<noteq> ADMIN_TOKEN cfg then s
      else if LIGHT_MODE cfg then s
      else if CLOUDINARY_CLOUD_NAME cfg = [] \<or> CLOUDINARY_API_KEY cfg = []
              \<or> CLOUDINARY_API_SECRET cfg = [] then s
      else s\<lparr>inflight := inflight s @ [Discovering]\<rparr>)"

text \<open>
  Where the call at position \<open>i\<close> stands after a step that leaves it the folders \<open>rest\<close>:
  with a folder left it waits for its next turn; with none it runs on through
  \<^verbatim>\<open>clusters.length = 0; clusters.push(...out)\<close> and returns.
\<close>

definition settle ::
  "nat \<Rightarrow> nat list \<Rightarrow> string list \<Rightarrow> cluster list \<Rightarrow> log_entry list \<Rightarrow> server \<Rightarrow> server" where
  "settle i hist rest out lg s =
     (if rest = []
      then s\<lparr>published := out, publishedBy := hist, inflight := removeAt i (inflight s)\<rparr>
      else s\<lparr>inflight := (inflight s)[i := Loading hist rest out lg]\<rparr>)"

text \<open>
  Resuming the call at position \<open>i\<close> with the collaborators \<open>e\<close> of the turn: it learns the
  folders, or handles its next folder as \<open>loadFolder\<close> does. A call that throws leaves the
  list of calls and the cache stays as it is.
\<close>

definition resume :: "config \<Rightarrow> env \<Rightarrow> nat \<Rightarrow> server \<Rightarrow> server" where
  "resume cfg e i s =
     (if i < length (inflight s) then
        (case inflight s ! i of
           Discovering \<Rightarrow>
             (case discoverReferenceFolders cfg e of
                Inl err \<Rightarrow> s\<lparr>inflight := removeAt i (inflight s)\<rparr>
              | Inr fs \<Rightarrow> settle i [turn s] fs [] [] s)
         | Loading hist [] out lg \<Rightarrow> settle i hist [] out lg s
         | Loading hist (f # rest) out lg \<Rightarrow>
             (case loadFolder cfg e f (out, lg) of
                (Inl err, lg') \<Rightarrow> s\<lparr>inflight := removeAt i (inflight s)\<rparr>
              | (Inr out', lg') \<Rightarrow> settle i (hist @ [turn s]) rest out' lg' s))
      else s)"

text \<open>One turn of the event loop, and a sequence of turns.\<close>

definition occur :: "config \<Rightarrow> world \<Rightarrow> event \<Rightarrow> server \<Rightarrow> server" where
  "occur cfg w ev s =
     (case ev of
        ReloadRequest token \<Rightarrow> reloadRequest cfg token s
      | Resume i \<Rightarrow> resume cfg (w (turn s)) i s)\<lparr>turn := turn s + 1\<rparr>"

definition run :: "config \<Rightarrow> world \<Rightarrow> event list \<Rightarrow> server \<Rightarrow> server" where
  "run cfg w evs s = fold (occur cfg w) evs s"

text \<open>
  The loop of \<^verbatim>\<open>loadClusters\<close> over folders that are visited at given turns, each with the
  collaborators of its turn.
\<close>

fun loadFoldersAt ::
  "config \<Rightarrow> world \<Rightarrow> (string \<times> nat) list \<Rightarrow> cluster list \<times> log_entry list
     \<Rightarrow> (build_error + cluster list) \<times> log_entry list" where
  "loadFoldersAt cfg w [] acc = (Inr (fst acc), snd acc)"
| "loadFoldersAt cfg w ((fname, t) # rest) acc =
     (case loadFolder cfg (w t) fname acc of
        (Inl err, lg) \<Rightarrow> (Inl err, lg)
      | (Inr out, lg) \<Rightarrow> loadFoldersAt cfg w rest (out, lg))"

text \<open>
  What one call of \<^verbatim>\<open>loadClusters\<close> holds after it has run at the turns \<open>hist\<close>: it learnt the
  folders at the first of them and visited one folder, in the order of the list, at each
  of the others. A call that has visited every folder has built its whole list.
\<close>

definition heldAfter :: "config \<Rightarrow> world \<Rightarrow> nat list \<Rightarrow> string list \<Rightarrow> cluster list \<Rightarrow> log_entry list \<Rightarrow> bool" where
  "heldAfter cfg w hist rest out lg =
     (case hist of
        [] \<Rightarrow> False
      | t0 # ts \<Rightarrow>
          (case discoverReferenceFolders cfg (w t0) of
             Inl err \<Rightarrow> False
           | Inr fs \<Rightarrow>
               length ts \<le> length fs \<and> rest = drop (length ts) fs
               \<and> loadFoldersAt cfg w (zip fs ts) ([], []) = (Inr out, lg)))"

definition builtAt :: "config \<Rightarrow> world \<Rightarrow> nat list \<Rightarrow> cluster list \<Rightarrow> bool" where
  "builtAt cfg w hist out =
     (case hist of
        [] \<Rightarrow> False
      | t0 # ts \<Rightarrow>
          (case discoverReferenceFolders cfg (w t0) of
             Inl err \<Rightarrow> False
           | Inr fs \<Rightarrow>
               length ts = length fs
               \<and> fst (loadFoldersAt cfg w (zip fs ts) ([], [])) = Inr out))"

text \<open>The turns of a call: increasing, from \<open>lo\<close> on and before \<open>hi\<close>.\<close>

definition turnsWithin :: "nat \<Rightarrow> nat \<Rightarrow> nat list \<Rightarrow> bool" where
  "turnsWithin lo hi hist = (sorted_wrt (<) hist \<and> list_all (\<lambda>t. lo \<le> t \<and> t < hi) hist)"

definition onTrack :: "config \<Rightarrow> world \<Rightarrow> nat \<Rightarrow> nat \<Rightarrow> build \<Rightarrow> bool" where
  "onTrack cfg w lo hi b =
     (case b of
        Discovering \<Rightarrow> True
      | Loading hist rest out lg \<Rightarrow>
          rest \<noteq> [] \<and> heldAfter cfg w hist rest out lg \<and> turnsWithin lo hi hist)"

text \<open>
  A state of the server in which every call in flight holds what its own turns gave it,
  and the cache is either the list \<open>p0\<close> or the whole list of one call.
\<close>

definition sound :: "config \<Rightarrow> world \<Rightarrow> cluster list \<Rightarrow> nat \<Rightarrow> nat \<Rightarrow> server \<Rightarrow> bool" where
  "sound cfg w p0 lo hi s =
     (list_all (onTrack cfg w lo hi) (inflight s)
      \<and> (if publishedBy s = [] then published s = p0
         else builtAt cfg w (publishedBy s) (published s) \<and> turnsWithin lo hi (publishedBy s)))"

text \<open>
  The reading of the specification: at most one build is in flight at any time.
\<close>

definition singleBuild :: "server \<Rightarrow> bool" where
  "singleBuild s = (length (inflight s) \<le> 1)"

subsection \<open>The server of \<^verbatim>\<open>part_001\<close>\<close>

text \<open>
  \<^verbatim>\<open>
  app.get("/admin/reload_refs", async (req, res) => {
    if (req.query.token !== ADMIN_TOKEN) return res.status(401).json({ error: "Unauthorized" });
    try {
      await loadClusters();
      res.json({ ok: true, clusters: clusters.map(...) });
    } catch (e) { ... res.status(500) ... }
  });
  \<close>
  This file also calls \<^verbatim>\<open>loadClusters\<close> once when the server starts to listen. Its calls
  share the memo of embeddings, the log and the counters of \<open>state_hf\<close>; each keeps its
  \<^verbatim>\<open>out\<close> in its own frame. A turn resumes one call for one folder, as above. (The calls
  of this file can also take turns between the images of a folder and between the requests
  for one image, where they meet in the memo and the counters; the statements below are
  about the lists of the calls and about the groups, which a call writes in its last
  statements only.)
\<close>

type_synonym world_hf = "nat \<Rightarrow> env_hf"

datatype build_hf = Discovering_hf | Loading_hf "nat list" "string list" "ref_group list"

record server_hf =
  shared :: state_hf
  publishedBy_hf :: "nat list"
  inflight_hf :: "build_hf list"
  turn_hf :: nat

definition reloadRequest_p001 :: "config_hf \<Rightarrow> string \<Rightarrow> server_hf \<Rightarrow> server_hf" where
  "reloadRequest_p001 cfg token s =
     (if token \<noteq> ADMIN_TOKEN cfg then s
      else if CLOUD_NAME cfg = [] \<or> CLOUD_API_KEY cfg = [] \<or> CLOUD_API_SECRET cfg = [] then s
      else s\<lparr>inflight_hf := inflight_hf s @ [Discovering_hf]\<rparr>)"

text \<open>
  The end of a step, in the process state \<open>st\<close> it has reached: the call waits, or replaces
  the groups and writes its \<^verbatim>\<open>Loaded clusters\<close> line.
\<close>

definition settle_p001 ::
  "nat \<Rightarrow> nat list \<Rightarrow> string list \<Rightarrow> ref_group list \<Rightarrow> state_hf \<Rightarrow> server_hf \<Rightarrow> server_hf" where
  "settle_p001 i hist rest out st s =
     (if rest = []
      then s\<lparr>shared := st\<lparr>groups := out,
                           logged_hf := logged_hf st
                             @ [Loaded (map (\<lambda>c. (r_label c, length (r_vecs c))) out)]\<rparr>,
             publishedBy_hf := hist, inflight_hf := removeAt i (inflight_hf s)\<rparr>
      else s\<lparr>shared := st, inflight_hf := (inflight_hf s)[i := Loading_hf hist rest out]\<rparr>)"

definition resume_p001 :: "config_hf \<Rightarrow> env_hf \<Rightarrow> nat \<Rightarrow> server_hf \<Rightarrow> server_hf" where
  "resume_p001 cfg e i s =
     (if i < length (inflight_hf s) then
        (case inflight_hf s ! i of
           Discovering_hf \<Rightarrow>
             (case discoverReferenceFolders cfg e of
                Inl err \<Rightarrow> s\<lparr>inflight_hf := removeAt i (inflight_hf s)\<rparr>
              | Inr fs \<Rightarrow> settle_p001 i [turn_hf s] fs [] (shared s) s)
         | Loading_hf hist [] out \<Rightarrow> settle_p001 i hist [] out (shared s) s
         | Loading_hf hist (f # rest) out \<Rightarrow>
             (case loadFolders_p001 cfg e [f] out (shared s) of
                (Inl err, st') \<Rightarrow> s\<lparr>shared := st', inflight_hf := removeAt i (inflight_hf s)\<rparr>
              | (Inr out', st') \<Rightarrow> settle_p001 i (hist @ [turn_hf s]) rest out' st' s))
      else s)"

definition occur_p001 :: "config_hf \<Rightarrow> world_hf \<Rightarrow> event \<Rightarrow> server_hf \<Rightarrow> server_hf" where
  "occur_p001 cfg w ev s =
     (case ev of
        ReloadRequest token \<Rightarrow> reloadRequest_p001 cfg token s
      | Resume i \<Rightarrow> resume_p001 cfg (w (turn_hf s)) i s)\<lparr>turn_hf := turn_hf s + 1\<rparr>"

definition run_p001 :: "config_hf \<Rightarrow> world_hf \<Rightarrow> event list \<Rightarrow> server_hf \<Rightarrow> server_hf" where
  "run_p001 cfg w evs s = fold (occur_p001 cfg w) evs s"

text \<open>The images a folder lists (none when the listing fails).\<close>

definition listed :: "'a storage_scheme \<Rightarrow> string \<Rightarrow> string list" where
  "listed e fname = (case searchFolderAssets e fname of Inl msg \<Rightarrow> [] | Inr urls \<Rightarrow> urls)"

text \<open>
  What a call of this file holds after it has run at the turns \<open>hist\<close>: groups for folders
  it has visited, in their order, each with the listing its folder had at one of the
  turns of the call and with at least one vector.
\<close>

definition heldAfter_p001 ::
  "config_hf \<Rightarrow> world_hf \<Rightarrow> nat list \<Rightarrow> string list \<Rightarrow> ref_group list \<Rightarrow> bool" where
  "heldAfter_p001 cfg w hist rest out =
     (case hist of
        [] \<Rightarrow> False
      | t0 # ts \<Rightarrow>
          (case discoverReferenceFolders cfg (w t0) of
             Inl err \<Rightarrow> False
           | Inr fs \<Rightarrow>
               length ts \<le> length fs \<and> rest = drop (length ts) fs
               \<and> subseq (map r_label out) (take (length ts) fs)
               \<and> list_all (\<lambda>g. r_vecs g \<noteq> []
                               \<and> list_ex (\<lambda>t. r_urls g = listed (w t) (r_label g)) ts) out))"

definition onTrack_p001 :: "config_hf \<Rightarrow> world_hf \<Rightarrow> nat \<Rightarrow> nat \<Rightarrow> build_hf \<Rightarrow> bool" where
  "onTrack_p001 cfg w lo hi b =
     (case b of
        Discovering_hf \<Rightarrow> True
      | Loading_hf hist rest out \<Rightarrow>
          rest \<noteq> [] \<and> heldAfter_p001 cfg w hist rest out \<and> turnsWithin lo hi hist)"

definition sound_p001 ::
  "config_hf \<Rightarrow> world_hf \<Rightarrow> ref_group list \<Rightarrow> nat \<Rightarrow> nat \<Rightarrow> server_hf \<Rightarrow> bool" where
  "sound_p001 cfg w g0 lo hi s =
     (list_all (onTrack_p001 cfg w lo hi) (inflight_hf s)
      \<and> (if publishedBy_hf s = [] then groups (shared s) = g0
         else heldAfter_p001 cfg w (publishedBy_hf s) [] (groups (shared s))
              \<and> turnsWithin lo hi (publishedBy_hf s)))"

section \<open>Notions of the specification\<close>

text \<open>
  The blend of the specification, in its words: \<open>0.40\<close> times the measurement score,
  \<open>0.25\<close> times the height score, \<open>0.30\<close> times the face similarity, \<open>0.05\<close> times \<open>0.6\<close>
  when the photo list is not empty, the photo bonus \<open>clamp((photoCount - 2) * 0.04, 0, 0.12)\<close>
  and the tie-break, the sum clamped to \<open>[0, 1]\<close>.
\<close>

definition confidence_spec :: "real \<Rightarrow> real \<Rightarrow> real \<Rightarrow> string list \<Rightarrow> real \<Rightarrow> real" where
  "confidence_spec measurementScore heightScore faceSimilarity phs tieBreak =
     max 0 (min 1
       (0.40 * measurementScore + 0.25 * heightScore + 0.30 * faceSimilarity
        + 0.05 * (if phs \<noteq> [] then 0.6 else 0)
        + max 0 (min 0.12 ((real (length phs) - 2) * 0.04))
        + tieBreak))"

text \<open>
  The comparisons the three loops of \<^verbatim>\<open>part_001\<close> make, in their order: every photo vector
  against every reference vector of every group of the pool, each with the label of its
  group; and the step that keeps the strictly greater similarity.
\<close>

definition comparisons :: "cells list \<Rightarrow> ref_group list \<Rightarrow> (real \<times> string) list" where
  "comparisons photoVecs pool =
     concat (map (\<lambda>pv. concat (map (\<lambda>c. map (\<lambda>rv. (cosine pv rv, r_label c)) (r_vecs c)) pool))
                 photoVecs)"

definition pickBetter :: "real \<times> string \<Rightarrow> real \<times> string \<Rightarrow> real \<times> string" where
  "pickBetter cand acc = (if fst cand > fst acc then cand else acc)"

text \<open>The groups a submission of gender \<open>GEN\<close> may be compared with.\<close>

definition eligible :: "string \<Rightarrow> ref_group \<Rightarrow> bool" where
  "eligible GEN c = (r_gender c = GEN \<or> r_gender c = ''unknown'')"

text \<open>
  What one answer of a backend means for the attempt it answers: the attempt is the last
  one unless the answer is a retryable status and another attempt is left; and the
  result the provider draws from the last answer.
\<close>

definition final :: "hf_resp \<Rightarrow> nat \<Rightarrow> bool" where
  "final r attempt =
     (case r of RespStatus s t \<Rightarrow> \<not> retryable s \<or> attempt = maxAttempts | _ \<Rightarrow> True)"

definition outcome :: "'a env_hf_scheme \<Rightarrow> string \<Rightarrow> hf_resp \<Rightarrow> embed_error + cells" where
  "outcome e route r =
     (case r of
        RespOk d \<Rightarrow>
          (case poolToVector (viaStrings e) d of Inl msg \<Rightarrow> Inl (Thrown msg) | Inr vec \<Rightarrow> Inr vec)
      | RespThrows msg \<Rightarrow> Inl (Thrown msg)
      | RespStatus s t \<Rightarrow> Inl (HfStatus s route (if t = [] then ''error'' else t)))"

text \<open>
  The images of a folder that a build samples (the first \<^verbatim>\<open>MAX_REFS_PER_FOLDER\<close> of the
  listing), the order in which its workers finish with them, the vectors of those that
  embed, and what is logged for those that do not.
\<close>

definition sampled :: "config \<Rightarrow> env \<Rightarrow> string \<Rightarrow> string list" where
  "sampled cfg e fname =
     (case searchFolderAssets e fname of
        Inl msg \<Rightarrow> []
      | Inr urlsAll \<Rightarrow> slice0 urlsAll (MAX_REFS_PER_FOLDER cfg))"

definition completed :: "config \<Rightarrow> env \<Rightarrow> string \<Rightarrow> string list" where
  "completed cfg e fname =
     (let urls = sampled cfg e fname;
          n = nat (min (MAX_EMBEDS_CONCURRENCY cfg) (int (length urls)))
      in completionOrder (firstDone e) (take n urls) (drop n urls))"

definition embedded :: "env \<Rightarrow> string list \<Rightarrow> vec list" where
  "embedded e urls =
     List.map_filter (\<lambda>u. case embedOne e u of Inl msg \<Rightarrow> None | Inr v \<Rightarrow> Some v) urls"

definition failures :: "env \<Rightarrow> string \<Rightarrow> string list \<Rightarrow> log_entry list" where
  "failures e fname urls =
     List.map_filter
       (\<lambda>u. case embedOne e u of Inl msg \<Rightarrow> Some (EmbedFail fname u msg) | Inr v \<Rightarrow> None) urls"

text \<open>
  The centroid of the specification: the vector sum of a non-empty list of vectors of one
  length, divided by their number.
\<close>

definition vectorSum :: "vec list \<Rightarrow> vec" where
  "vectorSum vs = map (\<lambda>i. sum_list (map (\<lambda>v. v ! i) vs)) [0..<length (hd vs)]"

definition centroidOf :: "vec list \<Rightarrow> vec" where
  "centroidOf vs = map (\<lambda>x. x / real (length vs)) (vectorSum vs)"

text \<open>Every vector the embedding returns has length \<open>d\<close>.\<close>

definition fixedLength :: "env \<Rightarrow> nat \<Rightarrow> bool" where
  "fixedLength e d = (\<forall>u v. embedOne e u = Inr v \<longrightarrow> length v = d)"

text \<open>
  The invariant of a cached group, in the words of the specification: its sample count is
  the number of images of its folder that embedded, that number is at least one, and its
  centroid is their mean.
\<close>

definition wellFormed :: "config \<Rightarrow> env \<Rightarrow> cluster \<Rightarrow> bool" where
  "wellFormed cfg e c =
     (let vs = embedded e (sampled cfg e (c_label c)) in
      c_size c = length vs \<and> 1 \<le> c_size c \<and> c_centroid c = centroidOf vs)"

text \<open>The running centroid after one more vector: \<^verbatim>\<open>if (!centroid) ...; centroid[i] += v[i]\<close>.\<close>

definition foldIn :: "vec option \<Rightarrow> vec \<Rightarrow> vec option" where
  "foldIn c v = Some (addInto (case c of None \<Rightarrow> replicate (length v) 0 | Some c' \<Rightarrow> c') v)"

text \<open>
  The label and the sample count a folder contributes to the cache, if any; and the log
  entries of a build over a list of folders, those of a folder in the order in which its
  workers finish.
\<close>

definition contribution :: "config \<Rightarrow> env \<Rightarrow> string \<Rightarrow> (string \<times> nat) option" where
  "contribution cfg e fname =
     (let n = length (embedded e (sampled cfg e fname)) in
      if n = 0 then None else Some (fname, n))"


definition summary :: "cluster list \<Rightarrow> (string \<times> nat) list" where
  "summary cs = map (\<lambda>c. (c_label c, c_size c)) cs"

text \<open>
  The linear ramp of the height score without its bonus: 0 up to the minimum, 1 from the
  maximum on, linear in between.
\<close>

definition ramp :: "height_prof \<Rightarrow> real \<Rightarrow> real" where
  "ramp P x = max 0 (min 1 ((x - minH P) / (maxH P - minH P)))"

text \<open>The sum that the height score clamps between the minimum and the maximum.\<close>

definition rampWithBonus :: "height_prof \<Rightarrow> real \<Rightarrow> real" where
  "rampWithBonus P x =
     (x - minH P) / (maxH P - minH P)
     + exp (- (((x - targetH P) / ((maxH P - minH P) / 2 / 2)) ^ 2)) * 0.15"

text \<open>
  For the builder of \<^verbatim>\<open>part_001\<close>: the number of \<^verbatim>\<open>embed_fail\<close> entries of a log, and the
  number of vectors a list of groups holds.
\<close>

fun isEmbedFailHf :: "log_entry \<Rightarrow> bool" where
  "isEmbedFailHf (EmbedFailHf fname u err) = True"
| "isEmbedFailHf entry = False"

definition embedFailsHf :: "log_entry list \<Rightarrow> nat" where
  "embedFailsHf lg = length (filter isEmbedFailHf lg)"


section \<open>Concrete inputs\<close>

text \<open>
  The inputs at which the theorems below are instantiated. The digest function agrees
  with SHA-256 on the strings hashed there: the digest of
  \<^verbatim>\<open>https://cdn.example.com/p/1.jpg\<close> starts with \<^verbatim>\<open>57847b\<close>.
\<close>

definition ex_sha256_hex6 :: "string \<Rightarrow> nat" where
  "ex_sha256_hex6 s = (if s = ''https://cdn.example.com/p/1.jpg'' then 0x57847b else 0)"

text \<open>A request with one photo and no height and no measurements.\<close>

definition ex_request :: request where
  "ex_request =
     \<lparr>authorization = ''Bearer secret'',
      photos = [''https://cdn.example.com/p/1.jpg''],
      gender = Some ''female'',
      height_cm = NoHeight,
      measurements = None\<rparr>"

text \<open>
  \<^verbatim>\<open>part_001\<close>: every setting present, one reference group in the cache, and a world in
  which the photo of the request cannot be fetched (\<^verbatim>\<open>image_fetch_failed:404\<close>). No body of
  the worlds below is converted through strings, so \<open>viaStrings\<close> plays no part in them.
\<close>

definition ex_config_hf :: config_hf where
  "ex_config_hf =
     \<lparr>ADMIN_TOKEN = ''admin'', REFERENCE_FOLDERS_JSON = Blank,
      KEY = ''secret'', HF_KEY = ''hf_token'', CLOUD_NAME = ''cloud'',
      CLOUD_API_KEY = ''key'', CLOUD_API_SECRET = ''cs'', HF_MODEL_ENV = []\<rparr>"

definition ex_env_hf_dead_photo :: env_hf where
  "ex_env_hf_dead_photo =
     \<lparr>listRootFolders = Inr [],
      searchFolderAssets = (\<lambda>folder. Inr []),
      sha256_hex6 = ex_sha256_hex6,
      fetchImageBuffer = (\<lambda>url. Inl ''image_fetch_failed:404''),
      hfFetch = (\<lambda>n route buf. RespStatus 503 []),
      viaStrings = (\<lambda>body. Inl ''TypeError'')\<rparr>"

definition ex_state_hf :: state_hf where
  "ex_state_hf =
     \<lparr>embedCache = Map.empty,
      groups = [\<lparr>r_label = ''Reference Female A'', r_gender = ''female'',
                 r_urls = [''https://res.example.com/ref/a1.jpg''],
                 r_vecs = [[Some 1, Some 0]]\<rparr>],
      logged_hf = [], requests = 0, sleeps = []\<rparr>"

text \<open>
  A cache of \<^verbatim>\<open>part_001\<close> with a male, a female and an untagged group.
\<close>

definition ex_groups3 :: "ref_group list" where
  "ex_groups3 =
     [\<lparr>r_label = ''Reference Male B'', r_gender = ''male'',
       r_urls = [''https://res.example.com/ref/b1.jpg''], r_vecs = [[Some 1, Some 0]]\<rparr>,
      \<lparr>r_label = ''Reference Female A'', r_gender = ''female'',
       r_urls = [''https://res.example.com/ref/a1.jpg''], r_vecs = [[Some 0, Some 1]]\<rparr>,
      \<lparr>r_label = ''Reference Looks'', r_gender = ''unknown'',
       r_urls = [''https://res.example.com/ref/l1.jpg''], r_vecs = [[Some 0, Some (- 1)]]\<rparr>]"

text \<open>
  \<^verbatim>\<open>part_000\<close>: every setting present, with \<^verbatim>\<open>LIGHT_MODE\<close> on; a world with no folders and
  no image that embeds.
\<close>

definition ex_config_light :: config where
  "ex_config_light =
     \<lparr>ADMIN_TOKEN = ''admin'', REFERENCE_FOLDERS_JSON = Blank,
      LIGHT_MODE = True, EVALUATOR_API_KEY = ''secret'',
      CLOUDINARY_CLOUD_NAME = ''cloud'', CLOUDINARY_API_KEY = ''key'',
      CLOUDINARY_API_SECRET = ''cs'',
      MAX_REFS_PER_FOLDER = 40, MAX_EMBEDS_CONCURRENCY = 2\<rparr>"

definition ex_env_empty :: env where
  "ex_env_empty =
     \<lparr>listRootFolders = Inr [],
      searchFolderAssets = (\<lambda>folder. Inr []),
      sha256_hex6 = ex_sha256_hex6,
      embedOne = (\<lambda>url. Inl ''image_fetch_failed:404''),
      firstDone = (\<lambda>urls. 0)\<rparr>"

text \<open>
  \<^verbatim>\<open>part_001\<close>: a world in which every image can be fetched and the inference API answers
  503 to the first two requests and a vector to every later one; and the state with the
  three groups above and nothing cached.
\<close>

definition ex_env_hf_flaky :: env_hf where
  "ex_env_hf_flaky =
     \<lparr>listRootFolders = Inr [],
      searchFolderAssets = (\<lambda>folder. Inr []),
      sha256_hex6 = ex_sha256_hex6,
      fetchImageBuffer = (\<lambda>url. Inr ''bytes''),
      hfFetch = (\<lambda>n route buf. if n < 2 then RespStatus 503 ''loading''
                               else RespOk (JArr [JNum 1, JNum 0])),
      viaStrings = (\<lambda>body. Inl ''TypeError'')\<rparr>"

text \<open>
  \<^verbatim>\<open>part_001\<close>, nothing cached and no group loaded; a world in which the inference API
  answers 401 to the first request, 503 to the next two and a vector to every later one;
  and a world in which it answers the first request with status 200 and the body
  \<^verbatim>\<open>{"error": "Model is overloaded"}\<close>, and every later one with a vector.
\<close>

definition ex_state_hf0 :: state_hf where
  "ex_state_hf0 =
     \<lparr>embedCache = Map.empty, groups = [], logged_hf = [], requests = 0, sleeps = []\<rparr>"

definition ex_env_hf_mixed :: env_hf where
  "ex_env_hf_mixed =
     \<lparr>listRootFolders = Inr [],
      searchFolderAssets = (\<lambda>folder. Inr []),
      sha256_hex6 = ex_sha256_hex6,
      fetchImageBuffer = (\<lambda>url. Inr ''bytes''),
      hfFetch = (\<lambda>n route buf. if n = 0 then RespStatus 401 ''Unauthorized''
                               else if n < 3 then RespStatus 503 ''loading''
                               else RespOk (JArr [JNum 1, JNum 0])),
      viaStrings = (\<lambda>body. Inl ''TypeError'')\<rparr>"

definition ex_env_hf_error_body :: env_hf where
  "ex_env_hf_error_body =
     \<lparr>listRootFolders = Inr [],
      searchFolderAssets = (\<lambda>folder. Inr []),
      sha256_hex6 = ex_sha256_hex6,
      fetchImageBuffer = (\<lambda>url. Inr ''bytes''),
      hfFetch = (\<lambda>n route buf. if n = 0 then RespOk (JObj [(''error'', JStr ''Model is overloaded'')])
                               else RespOk (JArr [JNum 1, JNum 0])),
      viaStrings = (\<lambda>body. Inl ''TypeError'')\<rparr>"

text \<open>
  \<^verbatim>\<open>part_001\<close>: a storage with three root folders, two of them reference folders; the
  first has two images, of which the second cannot be fetched, and the other is empty.
\<close>

definition ex_env_hf_refs :: env_hf where
  "ex_env_hf_refs =
     \<lparr>listRootFolders = Inr [''Reference Female A'', ''misc'', ''Reference Male B''],
      searchFolderAssets =
        (\<lambda>folder. if folder = ''Reference Female A''
                  then Inr [''https://res.example.com/ref/a1.jpg'', ''https://res.example.com/ref/a2.jpg'']
                  else Inr []),
      sha256_hex6 = ex_sha256_hex6,
      fetchImageBuffer =
        (\<lambda>url. if url = ''https://res.example.com/ref/a1.jpg'' then Inr ''bytes''
               else Inl ''image_fetch_failed:404''),
      hfFetch = (\<lambda>n route buf. RespOk (JArr [JNum 1, JNum 0])),
      viaStrings = (\<lambda>body. Inl ''TypeError'')\<rparr>"

definition ex_state_hf3 :: state_hf where
  "ex_state_hf3 =
     \<lparr>embedCache = Map.empty, groups = ex_groups3, logged_hf = [], requests = 0, sleeps = []\<rparr>"

text \<open>The same settings with \<^verbatim>\<open>LIGHT_MODE\<close> off.\<close>

definition ex_config_heavy :: config where
  "ex_config_heavy = ex_config_light\<lparr>LIGHT_MODE := False\<rparr>"

text \<open>
  The centroid variants: an explicit list of two reference folders; a world in which the
  first folder has two images, of which the second does not embed, and the other folder
  is empty; a world in which the listing of the first folder fails and the second folder
  has one image that embeds; and the empty state.
\<close>

definition ex_config_folders :: config where
  "ex_config_folders =
     ex_config_heavy\<lparr>REFERENCE_FOLDERS_JSON := Folders [''Reference Female A'', ''Reference Male B'']\<rparr>"

definition ex_env_one_image_fails :: env where
  "ex_env_one_image_fails =
     \<lparr>listRootFolders = Inr [],
      searchFolderAssets =
        (\<lambda>folder. if folder = ''Reference Female A''
                  then Inr [''https://res.example.com/ref/a1.jpg'', ''https://res.example.com/ref/a2.jpg'']
                  else Inr []),
      sha256_hex6 = ex_sha256_hex6,
      embedOne =
        (\<lambda>url. if url = ''https://res.example.com/ref/a1.jpg'' then Inr [0.6, 0.8]
               else Inl ''image_fetch_failed:404''),
      firstDone = (\<lambda>urls. 0)\<rparr>"


definition ex_state0 :: state where
  "ex_state0 = \<lparr>clusters = [], logged = []\<rparr>"

text \<open>
  A server with an empty cache and no build in flight; a world in which the first image
  of the first folder embeds to another vector from turn 4 on; and a sequence of events
  in which a second reload request arrives after the first build has handled its first
  folder: the second build is the first to finish, and the first build finishes after
  it.
\<close>

definition ex_server0 :: server where
  "ex_server0 = \<lparr>published = [], publishedBy = [], inflight = [], turn = 0\<rparr>"

definition ex_env_retouched :: env where
  "ex_env_retouched =
     ex_env_one_image_fails
       \<lparr>embedOne :=
          (\<lambda>url. if url = ''https://res.example.com/ref/a1.jpg'' then Inr [0.8, 0.6]
                 else Inl ''image_fetch_failed:404'')\<rparr>"

definition ex_world :: world where
  "ex_world t = (if t < 4 then ex_env_one_image_fails else ex_env_retouched)"

definition ex_events_overlap :: "event list" where
  "ex_events_overlap =
     [ReloadRequest ''admin'', Resume 0, Resume 0,
      ReloadRequest ''admin'', Resume 1, Resume 1]"

definition ex_events_race :: "event list" where
  "ex_events_race = ex_events_overlap @ [Resume 1, Resume 0]"

text \<open>
  \<^verbatim>\<open>part_001\<close>: the server as it starts to listen, with the call of \<^verbatim>\<open>loadClusters\<close> of
  the start in flight, in a world that does not change.
\<close>

definition ex_server_hf0 :: server_hf where
  "ex_server_hf0 =
     \<lparr>shared = ex_state_hf0, publishedBy_hf = [], inflight_hf = [Discovering_hf], turn_hf = 0\<rparr>"

definition ex_world_hf :: world_hf where
  "ex_world_hf t = ex_env_hf_refs"

definition ex_events_hf :: "event list" where
  "ex_events_hf = [Resume 0, ReloadRequest ''admin'', Resume 0, Resume 1, Resume 0]"

section \<open>Properties\<close>

subsection \<open>The gender tag\<close>

lemma includes_sublist: "includes_str s t \<longleftrightarrow> sublist t s"
  by (induction s) (simp_all add: sublist_Cons_right)

lemma female_has_male: "sublist ''female'' n \<Longrightarrow> sublist ''male'' n"
proof -
  assume "sublist ''female'' n"
  moreover have "sublist ''male'' ''female''"
    unfolding sublist_def by (intro exI[of _ "''fe''"] exI[of _ "[]"]) simp
  ultimately show ?thesis
    using sublist_order.order.trans by blast
qed

text \<open>
  C5, as stated, fails: the folder name \<^verbatim>\<open>Reference Female A\<close> contains both
  \<^verbatim>\<open>female\<close> and \<^verbatim>\<open>male\<close> (in any letter case), and the code tags it
  \<^verbatim>\<open>female\<close>, not \<^verbatim>\<open>unknown\<close>.
\<close>

theorem C5_multi_match_counterexample:
  "sublist ''female'' (toLowerCase ''Reference Female A'')
   \<and> sublist ''male'' (toLowerCase ''Reference Female A'')
   \<and> inferGenderFromFolder ''Reference Female A'' = ''female''
   \<and> inferGenderFromFolder ''Reference Female A'' \<noteq> genderTag_spec ''Reference Female A''"
proof -
  have low: "toLowerCase ''Reference Female A'' = ''reference female a''"
    by (simp add: toLowerCase_def toLowerChar_def)
  have f: "sublist ''female'' ''reference female a''"
    unfolding sublist_def by (intro exI[of _ "''reference ''"] exI[of _ "'' a''"]) simp
  have m: "sublist ''male'' ''reference female a''"
    using f by (rule female_has_male)
  have code: "inferGenderFromFolder ''Reference Female A'' = ''female''"
    using f by (simp add: inferGenderFromFolder_def low includes_sublist Let_def)
  have spec: "genderTag_spec ''Reference Female A'' = ''unknown''"
    using f m by (simp add: genderTag_spec_def low Let_def)
  show ?thesis
    using f m code spec by (simp add: low)
qed

text \<open>
  C5, amended: the tag is decided by substring tests on the lower-cased name, in a fixed
  order. A name containing \<^verbatim>\<open>female\<close> (which then contains \<^verbatim>\<open>male\<close> as well) is tagged
  \<^verbatim>\<open>female\<close>; a name containing \<^verbatim>\<open>male\<close> but not \<^verbatim>\<open>female\<close> is tagged \<^verbatim>\<open>male\<close>; a name is
  tagged \<^verbatim>\<open>unknown\<close> exactly when it contains neither.
\<close>

theorem C5_gender_tag_first_match:
  "(sublist ''female'' (toLowerCase name) \<longrightarrow> inferGenderFromFolder name = ''female'')
   \<and> (sublist ''male'' (toLowerCase name) \<and> \<not> sublist ''female'' (toLowerCase name)
        \<longrightarrow> inferGenderFromFolder name = ''male'')
   \<and> (inferGenderFromFolder name = ''unknown'' \<longleftrightarrow> \<not> sublist ''male'' (toLowerCase name))"
  using female_has_male [of "toLowerCase name"]
  by (auto simp add: inferGenderFromFolder_def includes_sublist Let_def)

theorem C5_gender_tag_first_match_witness:
  "sublist ''male'' (toLowerCase ''Reference MALE B'')
   \<and> \<not> sublist ''female'' (toLowerCase ''Reference MALE B'')
   \<and> inferGenderFromFolder ''Reference MALE B'' = ''male''"
proof -
  have low: "toLowerCase ''Reference MALE B'' = ''reference male b''"
    by (simp add: toLowerCase_def toLowerChar_def)
  have m: "sublist ''male'' ''reference male b''"
    unfolding sublist_def by (intro exI[of _ "''reference ''"] exI[of _ "'' b''"]) simp
  have nf: "\<not> sublist ''female'' ''reference male b''"
    unfolding includes_sublist [symmetric] by simp
  show ?thesis
    using C5_gender_tag_first_match [of "''Reference MALE B''"] m nf by (simp add: low)
qed

subsection \<open>Measurement score\<close>

lemma resolveGEN_cases: "resolveGEN g = ''male'' \<or> resolveGEN g = ''female''"
  by (simp add: resolveGEN_def Let_def)

lemma bandScore_ideal:
  assumes "minB bd < idealLo bd" and "idealHi bd < maxB bd"
    and "idealLo bd \<le> v" and "v \<le> idealHi bd"
  shows "bandScore v bd = 1"
  using assms by (simp add: bandScore_def)

text \<open>
  C9: for both gender profiles, a measurement triple inside the profile's ideal range
  has measurement score exactly 1, in each of the two versions of the score.
\<close>

theorem C9_ideal_range_scores_one:
  assumes "GEN = resolveGEN g"
    and "inIdealRange (PREFS GEN) m"
  shows "measScore_p000 GEN (PREFS GEN) (Some m) = 1
         \<and> measScore_p001 GEN (PREFS GEN) (Some m) = 1"
proof (cases "GEN = ''male''")
  case True
  let ?bs = "the (meas_bands PREFS_male)"
  have r: "idealLo (bandB ?bs) \<le> mB m" "mB m \<le> idealHi (bandB ?bs)"
    "idealLo (bandW ?bs) \<le> mW m" "mW m \<le> idealHi (bandW ?bs)"
    "idealLo (bandH ?bs) \<le> mH m" "mH m \<le> idealHi (bandH ?bs)"
    using assms(2) True by (simp_all add: inIdealRange_def PREFS_def PREFS_male_def)
  have sB: "bandScore (mB m) (bandB ?bs) = 1"
    using r(1,2) by (intro bandScore_ideal) (simp_all add: PREFS_male_def)
  have sW: "bandScore (mW m) (bandW ?bs) = 1"
    using r(3,4) by (intro bandScore_ideal) (simp_all add: PREFS_male_def)
  have sH: "bandScore (mH m) (bandH ?bs) = 1"
    using r(5,6) by (intro bandScore_ideal) (simp_all add: PREFS_male_def)
  have has: "meas_bands PREFS_male \<noteq> None"
    by (simp add: PREFS_male_def)
  show ?thesis
    using True has sB sW sH
    by (simp add: measScore_p000_def measScore_p001_def PREFS_def Let_def clamp01_def clamp_def)
next
  case False
  then have fem: "PREFS GEN = PREFS_female"
    by (simp add: PREFS_def)
  have at: "mB m = 82" "mW m = 60" "mH m = 88"
    using assms(2) by (simp_all add: fem inIdealRange_def PREFS_female_def)
  show ?thesis
    using False at
    by (simp add: fem measScore_p000_def measScore_p001_def PREFS_female_def Let_def
        clamp01_def clamp_def)
qed

theorem C9_ideal_range_scores_one_witness:
  "inIdealRange (PREFS (resolveGEN (Some ''Male''))) \<lparr>mB = 92, mW = 77, mH = 90\<rparr>
   \<and> measScore_p000 ''male'' PREFS_male (Some \<lparr>mB = 92, mW = 77, mH = 90\<rparr>) = 1
   \<and> measScore_p001 ''male'' PREFS_male (Some \<lparr>mB = 92, mW = 77, mH = 90\<rparr>) = 1"
proof -
  have g: "resolveGEN (Some ''Male'') = ''male''"
    by (simp add: resolveGEN_def startsWith_def toLowerCase_def toLowerChar_def)
  have p: "PREFS ''male'' = PREFS_male"
    by (simp add: PREFS_def)
  have i: "inIdealRange (PREFS ''male'') \<lparr>mB = 92, mW = 77, mH = 90\<rparr>"
    by (simp add: p inIdealRange_def PREFS_male_def)
  show ?thesis
    using C9_ideal_range_scores_one [of "''male''" "Some ''Male''" "\<lparr>mB = 92, mW = 77, mH = 90\<rparr>"] g i
    by (simp add: p)
qed

subsection \<open>No photo of the submission embeds\<close>

lemma embedPhotos_all_fail_aux:
  assumes "list_all (\<lambda>u. isl (embedOne e u)) urls"
  shows "fst (fold (\<lambda>url (photoVecs, lg).
                 case embedOne e url of
                   Inl msg \<Rightarrow> (photoVecs, lg @ [AppEmbedFail url msg])
                 | Inr v \<Rightarrow> (photoVecs @ [v], lg)) urls (vs, lg0)) = vs"
  using assms
proof (induction urls arbitrary: lg0)
  case Nil
  show ?case by simp
next
  case (Cons u us)
  from Cons.prems obtain msg where "embedOne e u = Inl msg"
    by (cases "embedOne e u") auto
  with Cons show ?case by simp
qed

lemma embedPhotos_all_fail:
  "list_all (\<lambda>u. isl (embedOne e u)) urls \<Longrightarrow> fst (embedPhotos e urls) = []"
  unfolding embedPhotos_def by (rule embedPhotos_all_fail_aux)

text \<open>
  In the centroid variants the face block does what C2 says: with a cache that is not
  empty and no photo (of the first five) embedded, the score is the neutral 0.5, the
  label is \<^verbatim>\<open>none\<close>, and the reason says that there was no valid photo to analyze.
\<close>

lemma faceBlock_no_photo_embeds:
  assumes "cs \<noteq> []" and "list_all (\<lambda>u. isl (embedOne e u)) (take 5 phs)"
  shows "\<exists>lg. faceBlock e cs phs = (0.5, ''none'', ''no valid photos to analyze'', lg)"
proof -
  obtain vs lg where el: "embedPhotos e (take 5 phs) = (vs, lg)"
    by (cases "embedPhotos e (take 5 phs)")
  with embedPhotos_all_fail [OF assms(2)] have "vs = []"
    by simp
  with el assms(1) show ?thesis
    by (simp add: faceBlock_def)
qed

lemma measScore_p001_None: "measScore_p001 GEN P None = 0"
  by (simp add: measScore_p001_def)

lemma measScore_p000_None: "measScore_p000 GEN P None = 0"
  by (simp add: measScore_p000_def)

lemma heightScore_NoHeight: "heightScoreFactory P NoHeight = 0"
  by (simp add: heightScoreFactory_def)

lemma heightReasons_NoHeight: "heightReasons P NoHeight = []"
  by (simp add: heightReasons_def truthyHeight_def)

lemma measReasons_None: "measReasons None x = []"
  by (simp add: measReasons_def)

lemma photoReasons_one: "photoReasons (Suc 0) = [''insufficient digitals'']"
  by (simp add: photoReasons_def)

lemma toFixed3_zero: "toFixed3 0 = 0"
  by (simp add: toFixed3_def)

lemma ex_request_facts:
  "photos ex_request \<noteq> []" "length (photos ex_request) = 1"
  "parseMeas (measurements ex_request) = None" "height_cm ex_request = NoHeight"
  "resolveGEN (gender ex_request) = ''female''"
  by (simp_all add: ex_request_def parseMeas_def resolveGEN_def startsWith_def
      toLowerCase_def toLowerChar_def)

lemma ex_getEmbedding_dead_photo:
  "getEmbedding ex_config_hf ex_env_hf_dead_photo ''https://cdn.example.com/p/1.jpg'' ex_state_hf
   = (Inl (ImageFetchFailed ''image_fetch_failed:404''), ex_state_hf)"
  by (simp add: getEmbedding_def ex_config_hf_def ex_env_hf_dead_photo_def ex_state_hf_def)

lemma ex_embedPhotos_dead_photo:
  "embedPhotos_p001 ex_config_hf ex_env_hf_dead_photo (photos ex_request) [] ex_state_hf
   = ([], ex_state_hf\<lparr>logged_hf := [AppEmbedFailHf ''https://cdn.example.com/p/1.jpg''
                                       (ImageFetchFailed ''image_fetch_failed:404'')]\<rparr>)"
  by (simp add: ex_request_def ex_getEmbedding_dead_photo) (simp add: ex_state_hf_def)

lemma ex_faceBlock_dead_photo:
  "fst (faceBlock_p001 ex_config_hf ex_env_hf_dead_photo ''female'' (photos ex_request) ex_state_hf)
   = (0, ''none'', ''low similarity to reference look'')"
  by (simp add: faceBlock_p001_def ex_embedPhotos_dead_photo bestMatch_def Let_def clamp01_def
      clamp_def faceReasonOf_def)
     (simp add: ex_state_hf_def)

text \<open>
  C2 at a concrete run of \<^verbatim>\<open>part_001\<close>: the cache holds one group, the only photo of the
  request cannot be fetched, so no photo embeds. The handler reports similarity 0, not
  0.5, and the reason \<^verbatim>\<open>low similarity to reference look (none)\<close>, with no note that
  no photo could be analyzed: the guard \<^verbatim>\<open>if (maxSim >= -1)\<close> holds for the initial
  \<^verbatim>\<open>maxSim = -1\<close> too.
\<close>

theorem C2_p001_no_photo_embeds_scores_zero:
  "groups ex_state_hf \<noteq> []
   \<and> fst (embedPhotos_p001 ex_config_hf ex_env_hf_dead_photo (photos ex_request) [] ex_state_hf) = []
   \<and> fst (evaluate_p001 ex_config_hf ex_env_hf_dead_photo ex_state_hf ex_request) =
       Ok200 \<lparr>decision = ''reject'', confidence = 0.0347,
              reason = ''insufficient digitals; low similarity to reference look (none)'',
              face_similarity = 0, face_cluster = ''none''\<rparr>"
proof (intro conjI)
  show "groups ex_state_hf \<noteq> []"
    by (simp add: ex_state_hf_def)
  show "fst (embedPhotos_p001 ex_config_hf ex_env_hf_dead_photo (photos ex_request) [] ex_state_hf) = []"
    by (simp add: ex_embedPhotos_dead_photo)
  obtain st1 where fb:
    "faceBlock_p001 ex_config_hf ex_env_hf_dead_photo ''female'' (photos ex_request) ex_state_hf
     = ((0, ''none'', ''low similarity to reference look''), st1)"
    using ex_faceBlock_dead_photo
    by (cases "faceBlock_p001 ex_config_hf ex_env_hf_dead_photo ''female'' (photos ex_request)
                 ex_state_hf") simp
  have auth: "authorized (KEY ex_config_hf) (authorization ex_request)"
    by (simp add: authorized_def ex_config_hf_def ex_request_def startsWith_def)
  have noise: "tinyNoise ex_env_hf_dead_photo (photos ex_request) = 47 / 10000"
    by (simp add: tinyNoise_def ex_env_hf_dead_photo_def ex_request_def ex_sha256_hex6_def)
  have bl: "blend 0 0 0 (Suc 0) (47 / 10000) = 347 / 10000"
    by (simp add: blend_def photoBoost_def clamp01_def clamp_def)
  have dc: "decide (347 / 10000) = ''reject''"
    by (simp add: decide_def)
  show "fst (evaluate_p001 ex_config_hf ex_env_hf_dead_photo ex_state_hf ex_request) =
       Ok200 \<lparr>decision = ''reject'', confidence = 0.0347,
              reason = ''insufficient digitals; low similarity to reference look (none)'',
              face_similarity = 0, face_cluster = ''none''\<rparr>"
    by (simp add: evaluate_p001_def auth ex_request_facts Let_def fb measScore_p001_None
        heightScore_NoHeight noise bl dc heightReasons_NoHeight measReasons_None
        photoReasons_one toFixed3_zero)
qed

subsection \<open>The embedding provider\<close>

lemma tryEmbedFrom_ok:
  assumes "attempt \<le> maxAttempts" and "hfFetch e (requests st) route buf = RespOk d"
  shows "tryEmbedFrom e route buf attempt lastE st
         = (case poolToVector (viaStrings e) d of Inl msg \<Rightarrow> Inl (Thrown msg) | Inr vec \<Rightarrow> Inr vec,
            st\<lparr>requests := requests st + 1\<rparr>)"
  using assms by (subst tryEmbedFrom.simps) (simp add: Let_def split: sum.splits)

lemma tryEmbedFrom_throws:
  assumes "attempt \<le> maxAttempts" and "hfFetch e (requests st) route buf = RespThrows msg"
  shows "tryEmbedFrom e route buf attempt lastE st
         = (Inl (Thrown msg), st\<lparr>requests := requests st + 1\<rparr>)"
  using assms by (subst tryEmbedFrom.simps) (simp add: Let_def)

lemma tryEmbedFrom_gives_up:
  assumes "attempt \<le> maxAttempts" and "hfFetch e (requests st) route buf = RespStatus s t"
    and "\<not> retryable s \<or> attempt = maxAttempts"
  shows "tryEmbedFrom e route buf attempt lastE st
         = (Inl (HfStatus s route (if t = [] then ''error'' else t)),
            st\<lparr>requests := requests st + 1\<rparr>)"
  using assms by (subst tryEmbedFrom.simps) (auto simp add: Let_def)

lemma tryEmbedFrom_retries:
  assumes "attempt < maxAttempts" and "hfFetch e (requests st) route buf = RespStatus s t"
    and "retryable s"
  shows "tryEmbedFrom e route buf attempt lastE st
         = tryEmbedFrom e route buf (attempt + 1)
             (Some (HfStatus s route (if t = [] then ''error'' else t)))
             (st\<lparr>requests := requests st + 1, sleeps := sleeps st @ [400 * attempt]\<rparr>)"
  using assms by (subst tryEmbedFrom.simps) (simp add: Let_def)

lemma tryEmbedFrom_final:
  assumes "attempt \<le> maxAttempts" and "final (hfFetch e (requests st) route buf) attempt"
  shows "tryEmbedFrom e route buf attempt lastE st
         = (outcome e route (hfFetch e (requests st) route buf), st\<lparr>requests := requests st + 1\<rparr>)"
proof (cases "hfFetch e (requests st) route buf")
  case (RespOk d)
  with assms(1) show ?thesis by (simp add: tryEmbedFrom_ok outcome_def)
next
  case (RespStatus s t)
  with assms show ?thesis by (simp add: tryEmbedFrom_gives_up outcome_def final_def)
next
  case (RespThrows msg)
  with assms(1) show ?thesis by (simp add: tryEmbedFrom_throws outcome_def)
qed

lemma tryEmbedFrom_not_final:
  assumes "attempt \<le> maxAttempts" and "\<not> final (hfFetch e (requests st) route buf) attempt"
  shows "attempt < maxAttempts \<and> (\<exists>s t. hfFetch e (requests st) route buf = RespStatus s t \<and> retryable s
           \<and> tryEmbedFrom e route buf attempt lastE st
              = tryEmbedFrom e route buf (attempt + 1)
                  (Some (HfStatus s route (if t = [] then ''error'' else t)))
                  (st\<lparr>requests := requests st + 1, sleeps := sleeps st @ [400 * attempt]\<rparr>))"
proof -
  from assms(2) obtain s t where r: "hfFetch e (requests st) route buf = RespStatus s t"
    and s: "retryable s" and a: "attempt \<noteq> maxAttempts"
    by (auto simp add: final_def split: hf_resp.splits)
  from a assms(1) have lt: "attempt < maxAttempts" by simp
  from tryEmbedFrom_retries [OF lt r s] lt r s show ?thesis by blast
qed

lemma tryEmbedFrom_run:
  assumes "attempt \<le> maxAttempts" and "tryEmbedFrom e route buf attempt lastE st = (res, st')"
  shows "\<exists>n. attempt \<le> n \<and> n \<le> maxAttempts
              \<and> requests st' = requests st + (n - attempt) + 1
              \<and> sleeps st' = sleeps st @ map (\<lambda>k. 400 * k) [attempt..<n]
              \<and> (\<forall>k. attempt \<le> k \<and> k < n \<longrightarrow>
                    (\<exists>s t. hfFetch e (requests st + (k - attempt)) route buf = RespStatus s t
                            \<and> retryable s))
              \<and> final (hfFetch e (requests st + (n - attempt)) route buf) n
              \<and> res = outcome e route (hfFetch e (requests st + (n - attempt)) route buf)"
  using assms
proof (induction "maxAttempts - attempt" arbitrary: attempt lastE st)
  case 0
  then have top: "attempt = maxAttempts" by simp
  then have fin: "final (hfFetch e (requests st) route buf) attempt"
    by (simp add: final_def split: hf_resp.splits)
  from tryEmbedFrom_final [OF "0.prems"(1) fin, of lastE] "0.prems"(2)
  have "res = outcome e route (hfFetch e (requests st) route buf)"
    "st' = st\<lparr>requests := requests st + 1\<rparr>"
    by simp_all
  with fin top show ?case
    by (intro exI [of _ attempt]) auto
next
  case (Suc d)
  show ?case
  proof (cases "final (hfFetch e (requests st) route buf) attempt")
    case True
    from tryEmbedFrom_final [OF Suc.prems(1) True, of lastE] Suc.prems(2)
    have "res = outcome e route (hfFetch e (requests st) route buf)"
      "st' = st\<lparr>requests := requests st + 1\<rparr>"
      by simp_all
    with True Suc.prems(1) show ?thesis
      by (intro exI [of _ attempt]) auto
  next
    case False
    from tryEmbedFrom_not_final [OF Suc.prems(1) False, of lastE]
    obtain s t where lt: "attempt < maxAttempts"
      and r: "hfFetch e (requests st) route buf = RespStatus s t" "retryable s"
      and step: "tryEmbedFrom e route buf attempt lastE st
               = tryEmbedFrom e route buf (attempt + 1)
                   (Some (HfStatus s route (if t = [] then ''error'' else t)))
                   (st\<lparr>requests := requests st + 1, sleeps := sleeps st @ [400 * attempt]\<rparr>)"
      by blast
    let ?st1 = "st\<lparr>requests := requests st + 1, sleeps := sleeps st @ [400 * attempt]\<rparr>"
    have d: "d = maxAttempts - (attempt + 1)"
      using Suc.hyps(2) by simp
    have le: "attempt + 1 \<le> maxAttempts"
      using lt by simp
    from Suc.hyps(1) [OF d le] step Suc.prems(2)
    obtain n where n: "attempt + 1 \<le> n" "n \<le> maxAttempts"
      "requests st' = requests ?st1 + (n - (attempt + 1)) + 1"
      "sleeps st' = sleeps ?st1 @ map (\<lambda>k. 400 * k) [attempt + 1..<n]"
      "\<forall>k. attempt + 1 \<le> k \<and> k < n \<longrightarrow>
           (\<exists>s t. hfFetch e (requests ?st1 + (k - (attempt + 1))) route buf = RespStatus s t
                   \<and> retryable s)"
      "final (hfFetch e (requests ?st1 + (n - (attempt + 1))) route buf) n"
      "res = outcome e route (hfFetch e (requests ?st1 + (n - (attempt + 1))) route buf)"
      by (metis (no_types, lifting))
    have idx: "requests ?st1 + (k - (attempt + 1)) = requests st + (k - attempt)"
      if "attempt + 1 \<le> k" for k
      using that by simp
    have upt: "[attempt..<n] = attempt # [attempt + 1..<n]"
      using n(1) by (simp add: upt_conv_Cons)
    have retr: "\<exists>s t. hfFetch e (requests st + (k - attempt)) route buf = RespStatus s t \<and> retryable s"
      if "attempt \<le> k \<and> k < n" for k
    proof (cases "k = attempt")
      case True
      with r show ?thesis by simp
    next
      case False
      with that have k: "attempt + 1 \<le> k \<and> k < n" by simp
      with n(5) obtain s' t' where
        "hfFetch e (requests ?st1 + (k - (attempt + 1))) route buf = RespStatus s' t'" "retryable s'"
        by blast
      then show ?thesis
        unfolding idx [of k, OF conjunct1 [OF k]] by blast
    qed
    have c1: "attempt \<le> n" using n(1) by simp
    have c3: "requests st' = requests st + (n - attempt) + 1"
      using n(1,3) by simp
    have c4: "sleeps st' = sleeps st @ map (\<lambda>k. 400 * k) [attempt..<n]"
      using n(4) upt by simp
    have c5: "\<forall>k. attempt \<le> k \<and> k < n \<longrightarrow>
                (\<exists>s t. hfFetch e (requests st + (k - attempt)) route buf = RespStatus s t
                        \<and> retryable s)"
      using retr by blast
    have c6: "final (hfFetch e (requests st + (n - attempt)) route buf) n"
      using n(6) unfolding idx [OF n(1)] .
    have c7: "res = outcome e route (hfFetch e (requests st + (n - attempt)) route buf)"
      using n(7) unfolding idx [OF n(1)] .
    from c1 n(2) c3 c4 c5 c6 c7 show ?thesis
      by blast
  qed
qed


lemma retryable_5xx: "retryable s \<Longrightarrow> 500 \<le> s \<and> s < 600"
  by (auto simp add: retryable_def)

text \<open>
  The backends \<^verbatim>\<open>getEmbedding\<close> goes through: each of the three models with each of its
  three routes, the routes of a model before the next model.
\<close>

lemma backends_order:
  "backends cfg =
     [(HF_MODELS cfg ! 0, HF_ROUTES (HF_MODELS cfg ! 0) ! 0),
      (HF_MODELS cfg ! 0, HF_ROUTES (HF_MODELS cfg ! 0) ! 1),
      (HF_MODELS cfg ! 0, HF_ROUTES (HF_MODELS cfg ! 0) ! 2),
      (HF_MODELS cfg ! 1, HF_ROUTES (HF_MODELS cfg ! 1) ! 0),
      (HF_MODELS cfg ! 1, HF_ROUTES (HF_MODELS cfg ! 1) ! 1),
      (HF_MODELS cfg ! 1, HF_ROUTES (HF_MODELS cfg ! 1) ! 2),
      (HF_MODELS cfg ! 2, HF_ROUTES (HF_MODELS cfg ! 2) ! 0),
      (HF_MODELS cfg ! 2, HF_ROUTES (HF_MODELS cfg ! 2) ! 1),
      (HF_MODELS cfg ! 2, HF_ROUTES (HF_MODELS cfg ! 2) ! 2)]"
  by (simp add: backends_def HF_MODELS_def HF_ROUTES_def)

text \<open>
  The loop over a list of backends: the first \<open>k\<close> of them fail, each tried in the state
  the one before left, with its failure logged; then either backend \<open>k\<close> succeeds, and its
  vector is stored and returned, or the list is exhausted and the last error is thrown.
\<close>

lemma tryBackends_trace:
  "\<exists>k sts. k \<le> length bs \<and> length sts = Suc k \<and> sts ! 0 = st
     \<and> (\<forall>i<k. \<exists>err s1. tryEmbed e (snd (bs ! i)) buf (sts ! i) = (Inl err, s1)
                \<and> sts ! Suc i = s1\<lparr>logged_hf := logged_hf s1 @ [HfTryFail (fst (bs ! i)) err]\<rparr>)
     \<and> (k < length bs \<longrightarrow>
          (\<exists>vec s1. tryEmbed e (snd (bs ! k)) buf (sts ! k) = (Inr vec, s1)
             \<and> tryBackends e url buf bs lastErr st
                 = (Inr vec, s1\<lparr>embedCache := (embedCache s1)(url \<mapsto> vec)\<rparr>)))
     \<and> (k = length bs \<longrightarrow>
          (\<exists>err. tryBackends e url buf bs lastErr st = (Inl err, sts ! k)
             \<and> (k = 0 \<longrightarrow> err = (case lastErr of Some x \<Rightarrow> x | None \<Rightarrow> AllEndpointsFailed))
             \<and> (0 < k \<longrightarrow> fst (tryEmbed e (snd (bs ! (k - 1))) buf (sts ! (k - 1))) = Inl err)))"
proof (induction bs arbitrary: lastErr st)
  case Nil
  show ?case
    by (intro exI [of _ 0] exI [of _ "[st]"]) simp
next
  case (Cons b bs)
  obtain model route where b: "b = (model, route)"
    by (cases b)
  obtain r s1 where t: "tryEmbed e route buf st = (r, s1)"
    by (cases "tryEmbed e route buf st")
  show ?case
  proof (cases r)
    case (Inr vec)
    with b t have "tryBackends e url buf (b # bs) lastErr st
                   = (Inr vec, s1\<lparr>embedCache := (embedCache s1)(url \<mapsto> vec)\<rparr>)"
      by simp
    with b t Inr
    have w: "0 < length (b # bs) \<longrightarrow>
           (\<exists>vec s1. tryEmbed e (snd ((b # bs) ! 0)) buf ([st] ! 0) = (Inr vec, s1)
             \<and> tryBackends e url buf (b # bs) lastErr st
                 = (Inr vec, s1\<lparr>embedCache := (embedCache s1)(url \<mapsto> vec)\<rparr>))"
      by (simp del: tryBackends.simps)
    have k: "0 \<le> length (b # bs)" "length [st] = Suc 0" "[st] ! 0 = st"
      by simp_all
    have f: "\<forall>i<0. \<exists>err s1. tryEmbed e (snd ((b # bs) ! i)) buf ([st] ! i) = (Inl err, s1)
                \<and> [st] ! Suc i
                    = s1\<lparr>logged_hf := logged_hf s1 @ [HfTryFail (fst ((b # bs) ! i)) err]\<rparr>"
      by simp
    have l: "0 = length (b # bs) \<longrightarrow>
          (\<exists>err. tryBackends e url buf (b # bs) lastErr st = (Inl err, [st] ! 0)
             \<and> (0 = 0 \<longrightarrow> err = (case lastErr of Some x \<Rightarrow> x | None \<Rightarrow> AllEndpointsFailed))
             \<and> (0 < 0 \<longrightarrow>
                  fst (tryEmbed e (snd ((b # bs) ! (0 - 1))) buf ([st] ! (0 - 1))) = Inl err))"
      by simp
    show ?thesis
      apply (rule exI [of _ 0])
      apply (rule exI [of _ "[st]"])
      apply (intro conjI)
           apply (rule k(1))
          apply (rule k(2))
         apply (rule k(3))
        apply (rule f)
       apply (rule w)
      apply (rule l)
      done
  next
    case (Inl err)
    let ?st2 = "s1\<lparr>logged_hf := logged_hf s1 @ [HfTryFail model err]\<rparr>"
    have step: "tryBackends e url buf (b # bs) lastErr st = tryBackends e url buf bs (Some err) ?st2"
      using b t Inl by simp
    from Cons.IH [of ?st2 "Some err"]
    obtain k sts where all: "k \<le> length bs \<and> length sts = Suc k \<and> sts ! 0 = ?st2
      \<and> (\<forall>i<k. \<exists>err s1. tryEmbed e (snd (bs ! i)) buf (sts ! i) = (Inl err, s1)
                \<and> sts ! Suc i = s1\<lparr>logged_hf := logged_hf s1 @ [HfTryFail (fst (bs ! i)) err]\<rparr>)
      \<and> (k < length bs \<longrightarrow>
          (\<exists>vec s1. tryEmbed e (snd (bs ! k)) buf (sts ! k) = (Inr vec, s1)
             \<and> tryBackends e url buf bs (Some err) ?st2
                 = (Inr vec, s1\<lparr>embedCache := (embedCache s1)(url \<mapsto> vec)\<rparr>)))
      \<and> (k = length bs \<longrightarrow>
          (\<exists>err'. tryBackends e url buf bs (Some err) ?st2 = (Inl err', sts ! k)
             \<and> (k = 0 \<longrightarrow> err' = (case Some err of Some x \<Rightarrow> x | None \<Rightarrow> AllEndpointsFailed))
             \<and> (0 < k \<longrightarrow> fst (tryEmbed e (snd (bs ! (k - 1))) buf (sts ! (k - 1))) = Inl err')))"
      by (elim exE) (rule that)
    note ih = conjunct1 [OF all] conjunct1 [OF conjunct2 [OF all]]
      conjunct1 [OF conjunct2 [OF conjunct2 [OF all]]]
      conjunct1 [OF conjunct2 [OF conjunct2 [OF conjunct2 [OF all]]]]
      conjunct1 [OF conjunct2 [OF conjunct2 [OF conjunct2 [OF conjunct2 [OF all]]]]]
      conjunct2 [OF conjunct2 [OF conjunct2 [OF conjunct2 [OF conjunct2 [OF all]]]]]
    have k': "Suc k \<le> length (b # bs)" "length (st # sts) = Suc (Suc k)" "(st # sts) ! 0 = st"
      using ih(1,2) by simp_all
    have f': "\<forall>i<Suc k. \<exists>err s1. tryEmbed e (snd ((b # bs) ! i)) buf ((st # sts) ! i) = (Inl err, s1)
                \<and> (st # sts) ! Suc i
                    = s1\<lparr>logged_hf := logged_hf s1 @ [HfTryFail (fst ((b # bs) ! i)) err]\<rparr>"
    proof (intro allI impI)
      fix i assume i: "i < Suc k"
      show "\<exists>err s1. tryEmbed e (snd ((b # bs) ! i)) buf ((st # sts) ! i) = (Inl err, s1)
                \<and> (st # sts) ! Suc i
                    = s1\<lparr>logged_hf := logged_hf s1 @ [HfTryFail (fst ((b # bs) ! i)) err]\<rparr>"
      proof (cases i)
        case 0
        have "tryEmbed e (snd ((b # bs) ! 0)) buf ((st # sts) ! 0) = (Inl err, s1)"
          using b t Inl by simp
        moreover have "(st # sts) ! Suc 0
              = s1\<lparr>logged_hf := logged_hf s1 @ [HfTryFail (fst ((b # bs) ! 0)) err]\<rparr>"
          using b ih(3) by simp
        ultimately show ?thesis
          unfolding 0 by blast
      next
        case (Suc i')
        with i have "i' < k" by simp
        with ih(4) have "\<exists>err s1. tryEmbed e (snd (bs ! i')) buf (sts ! i') = (Inl err, s1)
                \<and> sts ! Suc i' = s1\<lparr>logged_hf := logged_hf s1 @ [HfTryFail (fst (bs ! i')) err]\<rparr>"
          by blast
        then show ?thesis
          unfolding Suc nth_Cons_Suc .
      qed
    qed
    have w': "Suc k < length (b # bs) \<longrightarrow>
          (\<exists>vec s1. tryEmbed e (snd ((b # bs) ! Suc k)) buf ((st # sts) ! Suc k) = (Inr vec, s1)
             \<and> tryBackends e url buf (b # bs) lastErr st
                 = (Inr vec, s1\<lparr>embedCache := (embedCache s1)(url \<mapsto> vec)\<rparr>))"
    proof
      assume "Suc k < length (b # bs)"
      then have "k < length bs" by simp
      with ih(5) show "\<exists>vec s1. tryEmbed e (snd ((b # bs) ! Suc k)) buf ((st # sts) ! Suc k) = (Inr vec, s1)
             \<and> tryBackends e url buf (b # bs) lastErr st
                 = (Inr vec, s1\<lparr>embedCache := (embedCache s1)(url \<mapsto> vec)\<rparr>)"
        unfolding step nth_Cons_Suc by (rule mp)
    qed
    have l': "Suc k = length (b # bs) \<longrightarrow>
          (\<exists>err'. tryBackends e url buf (b # bs) lastErr st = (Inl err', (st # sts) ! Suc k)
             \<and> (Suc k = 0 \<longrightarrow> err' = (case lastErr of Some x \<Rightarrow> x | None \<Rightarrow> AllEndpointsFailed))
             \<and> (0 < Suc k \<longrightarrow>
                  fst (tryEmbed e (snd ((b # bs) ! (Suc k - 1))) buf ((st # sts) ! (Suc k - 1))) = Inl err'))"
    proof
      assume "Suc k = length (b # bs)"
      then have "k = length bs" by simp
      with ih(6) obtain err' where e': "tryBackends e url buf bs (Some err) ?st2 = (Inl err', sts ! k)"
        "k = 0 \<longrightarrow> err' = (case Some err of Some x \<Rightarrow> x | None \<Rightarrow> AllEndpointsFailed)"
        "0 < k \<longrightarrow> fst (tryEmbed e (snd (bs ! (k - 1))) buf (sts ! (k - 1))) = Inl err'"
        by blast
      have "fst (tryEmbed e (snd ((b # bs) ! k)) buf ((st # sts) ! k)) = Inl err'"
      proof (cases k)
        case 0
        with e'(2) b t Inl show ?thesis by simp
      next
        case (Suc k')
        with e'(3) show ?thesis by simp
      qed
      moreover have "tryBackends e url buf (b # bs) lastErr st = (Inl err', (st # sts) ! Suc k)"
        unfolding step nth_Cons_Suc by (rule e'(1))
      ultimately
      show "\<exists>err'. tryBackends e url buf (b # bs) lastErr st = (Inl err', (st # sts) ! Suc k)
             \<and> (Suc k = 0 \<longrightarrow> err' = (case lastErr of Some x \<Rightarrow> x | None \<Rightarrow> AllEndpointsFailed))
             \<and> (0 < Suc k \<longrightarrow>
                  fst (tryEmbed e (snd ((b # bs) ! (Suc k - 1))) buf ((st # sts) ! (Suc k - 1))) = Inl err')"
        by simp
    qed
    show ?thesis
      apply (rule exI [of _ "Suc k"])
      apply (rule exI [of _ "st # sts"])
      apply (intro conjI)
           apply (rule k'(1))
          apply (rule k'(2))
         apply (rule k'(3))
        apply (rule f')
       apply (rule w')
      apply (rule l')
      done
  qed
qed

lemma poolToVector_shapes:
  "poolToVector via (JNum x) = Inr []"
  "poolToVector via (JBool b) = Inr []"
  "''length'' \<notin> fst ` set kvs \<Longrightarrow> poolToVector via (JObj kvs) = Inr []"
  "poolToVector via (JStr s) = Inr (map charToNumber s)"
  "poolToVector via (JArr []) = Inr []"
  "poolToVector via JNull = Inl ''TypeError''"
  by simp_all

lemma ex_tryEmbed_flaky:
  "tryEmbed ex_env_hf_flaky route ''bytes'' ex_state_hf3
   = (Inr [Some 1, Some 0], ex_state_hf3\<lparr>requests := 3, sleeps := [400, 800]\<rparr>)"
proof -
  let ?e = ex_env_hf_flaky
  let ?st1 = "ex_state_hf3\<lparr>requests := 1, sleeps := [400]\<rparr>"
  let ?st2 = "ex_state_hf3\<lparr>requests := 2, sleeps := [400, 800]\<rparr>"
  let ?err = "Some (HfStatus 503 route ''loading'')"
  have m: "maxAttempts = 3" by (simp add: maxAttempts_def)
  have r: "retryable 503" by (simp add: retryable_def)
  have s1: "tryEmbedFrom ?e route ''bytes'' 1 None ex_state_hf3
            = tryEmbedFrom ?e route ''bytes'' 2 ?err ?st1"
    using tryEmbedFrom_retries [of 1 ?e ex_state_hf3 route "''bytes''" 503 "''loading''" None] r
    by (simp add: m ex_env_hf_flaky_def ex_state_hf3_def numeral_2_eq_2 numeral_3_eq_3)
  have s2: "tryEmbedFrom ?e route ''bytes'' 2 ?err ?st1
            = tryEmbedFrom ?e route ''bytes'' 3 ?err ?st2"
    using tryEmbedFrom_retries [of 2 ?e ?st1 route "''bytes''" 503 "''loading''" ?err] r
    by (simp add: m ex_env_hf_flaky_def ex_state_hf3_def numeral_2_eq_2 numeral_3_eq_3)
  have s3: "tryEmbedFrom ?e route ''bytes'' 3 ?err ?st2
            = (Inr [Some 1, Some 0], ex_state_hf3\<lparr>requests := 3, sleeps := [400, 800]\<rparr>)"
    using tryEmbedFrom_ok [of 3 ?e ?st2 route "''bytes''" "JArr [JNum 1, JNum 0]" ?err]
    by (simp add: m ex_env_hf_flaky_def ex_state_hf3_def numeral_2_eq_2 numeral_3_eq_3)
  show ?thesis
    unfolding tryEmbed_def using s1 s2 s3 by simp
qed

lemma ex_tryEmbed_unauthorized:
  assumes "requests st = 0"
  shows "tryEmbed ex_env_hf_mixed route ''bytes'' st
         = (Inl (HfStatus 401 route ''Unauthorized''), st\<lparr>requests := 1\<rparr>)"
proof -
  have "\<not> retryable 401"
    by (simp add: retryable_def)
  then show ?thesis
    unfolding tryEmbed_def
    using tryEmbedFrom_gives_up [of 1 ex_env_hf_mixed st route "''bytes''" 401 "''Unauthorized''" None]
      assms
    by (simp add: maxAttempts_def ex_env_hf_mixed_def)
qed

lemma ex_tryEmbed_mixed_later:
  assumes "requests st = 1" and "sleeps st = []"
  shows "tryEmbed ex_env_hf_mixed route ''bytes'' st
         = (Inr [Some 1, Some 0], st\<lparr>requests := 4, sleeps := [400, 800]\<rparr>)"
proof -
  let ?e = ex_env_hf_mixed
  let ?st1 = "st\<lparr>requests := 2, sleeps := [400]\<rparr>"
  let ?st2 = "st\<lparr>requests := 3, sleeps := [400, 800]\<rparr>"
  let ?err = "Some (HfStatus 503 route ''loading'')"
  have m: "maxAttempts = 3" by (simp add: maxAttempts_def)
  have r: "retryable 503" by (simp add: retryable_def)
  have s1: "tryEmbedFrom ?e route ''bytes'' 1 None st
            = tryEmbedFrom ?e route ''bytes'' 2 ?err ?st1"
    using tryEmbedFrom_retries [of 1 ?e st route "''bytes''" 503 "''loading''" None] r assms
    by (simp add: m ex_env_hf_mixed_def numeral_2_eq_2 numeral_3_eq_3)
  have s2: "tryEmbedFrom ?e route ''bytes'' 2 ?err ?st1
            = tryEmbedFrom ?e route ''bytes'' 3 ?err ?st2"
    using tryEmbedFrom_retries [of 2 ?e ?st1 route "''bytes''" 503 "''loading''" ?err] r
    by (simp add: m ex_env_hf_mixed_def numeral_2_eq_2 numeral_3_eq_3)
  have s3: "tryEmbedFrom ?e route ''bytes'' 3 ?err ?st2
            = (Inr [Some 1, Some 0], st\<lparr>requests := 4, sleeps := [400, 800]\<rparr>)"
    using tryEmbedFrom_ok [of 3 ?e ?st2 route "''bytes''" "JArr [JNum 1, JNum 0]" ?err]
    by (simp add: m ex_env_hf_mixed_def numeral_2_eq_2 numeral_3_eq_3)
  show ?thesis
    unfolding tryEmbed_def using s1 s2 s3 by simp
qed

lemma ex_backends2:
  "backends ex_config_hf =
     (''sentence-transformers/clip-ViT-B-32'',
      ''https://api-inference.huggingface.co/pipeline/image-feature-extraction/sentence-transformers/clip-ViT-B-32'')
     # (''sentence-transformers/clip-ViT-B-32'',
        ''https://api-inference.huggingface.co/pipeline/feature-extraction/sentence-transformers/clip-ViT-B-32'')
     # drop 2 (backends ex_config_hf)"
  by (simp add: backends_def HF_MODELS_def HF_ROUTES_def ex_config_hf_def)

lemma ex_getEmbedding_mixed:
  "getEmbedding ex_config_hf ex_env_hf_mixed ''https://cdn.example.com/p/1.jpg'' ex_state_hf0
   = (Inr [Some 1, Some 0],
      \<lparr>embedCache = [''https://cdn.example.com/p/1.jpg'' \<mapsto> [Some 1, Some 0]],
       groups = [],
       logged_hf =
         [HfTryFail ''sentence-transformers/clip-ViT-B-32''
            (HfStatus 401
               ''https://api-inference.huggingface.co/pipeline/image-feature-extraction/sentence-transformers/clip-ViT-B-32''
               ''Unauthorized'')],
       requests = 4, sleeps = [400, 800]\<rparr>)"
proof -
  have c: "embedCache ex_state_hf0 ''https://cdn.example.com/p/1.jpg'' = None"
    by (simp add: ex_state_hf0_def)
  have k: "HF_KEY ex_config_hf \<noteq> []"
    by (simp add: ex_config_hf_def)
  have f: "fetchImageBuffer ex_env_hf_mixed ''https://cdn.example.com/p/1.jpg'' = Inr ''bytes''"
    by (simp add: ex_env_hf_mixed_def)
  have r0: "requests ex_state_hf0 = 0"
    by (simp add: ex_state_hf0_def)
  have "getEmbedding ex_config_hf ex_env_hf_mixed ''https://cdn.example.com/p/1.jpg'' ex_state_hf0
        = tryBackends ex_env_hf_mixed ''https://cdn.example.com/p/1.jpg'' ''bytes''
            (backends ex_config_hf) None ex_state_hf0"
    by (simp add: getEmbedding_def c k f)
  also have "\<dots> = (Inr [Some 1, Some 0],
      \<lparr>embedCache = [''https://cdn.example.com/p/1.jpg'' \<mapsto> [Some 1, Some 0]],
       groups = [],
       logged_hf =
         [HfTryFail ''sentence-transformers/clip-ViT-B-32''
            (HfStatus 401
               ''https://api-inference.huggingface.co/pipeline/image-feature-extraction/sentence-transformers/clip-ViT-B-32''
               ''Unauthorized'')],
       requests = 4, sleeps = [400, 800]\<rparr>)"
    by (subst ex_backends2)
       (simp add: ex_tryEmbed_unauthorized ex_tryEmbed_mixed_later ex_state_hf0_def)
  finally show ?thesis .
qed

lemma ex_getEmbedding_error_body:
  "getEmbedding ex_config_hf ex_env_hf_error_body ''https://cdn.example.com/p/1.jpg'' ex_state_hf0
   = (Inr [], ex_state_hf0\<lparr>requests := 1,
                            embedCache := [''https://cdn.example.com/p/1.jpg'' \<mapsto> []]\<rparr>)"
proof -
  have c: "embedCache ex_state_hf0 ''https://cdn.example.com/p/1.jpg'' = None"
    by (simp add: ex_state_hf0_def)
  have k: "HF_KEY ex_config_hf \<noteq> []"
    by (simp add: ex_config_hf_def)
  have f: "fetchImageBuffer ex_env_hf_error_body ''https://cdn.example.com/p/1.jpg'' = Inr ''bytes''"
    by (simp add: ex_env_hf_error_body_def)
  have t: "tryEmbed ex_env_hf_error_body route ''bytes'' ex_state_hf0
           = (Inr [], ex_state_hf0\<lparr>requests := 1\<rparr>)" for route
    unfolding tryEmbed_def
    using tryEmbedFrom_ok [of 1 ex_env_hf_error_body ex_state_hf0 route "''bytes''"
        "JObj [(''error'', JStr ''Model is overloaded'')]" None]
    by (simp add: maxAttempts_def ex_env_hf_error_body_def ex_state_hf0_def)
  have "getEmbedding ex_config_hf ex_env_hf_error_body ''https://cdn.example.com/p/1.jpg'' ex_state_hf0
        = tryBackends ex_env_hf_error_body ''https://cdn.example.com/p/1.jpg'' ''bytes''
            (backends ex_config_hf) None ex_state_hf0"
    by (simp add: getEmbedding_def c k f)
  also have "\<dots> = (Inr [], ex_state_hf0\<lparr>requests := 1,
                            embedCache := [''https://cdn.example.com/p/1.jpg'' \<mapsto> []]\<rparr>)"
    by (subst ex_backends2) (simp add: t, simp add: ex_state_hf0_def)
  finally show ?thesis .
qed

text \<open>
  C6, as stated, fails for a malformed response that parses: nothing checks the shape of a
  body that arrives with status 200. When the first backend answers
  \<^verbatim>\<open>{"error": "Model is overloaded"}\<close>, \<^verbatim>\<open>poolToVector\<close> makes the empty vector of it, and
  \<^verbatim>\<open>getEmbedding\<close> stores and returns that vector after one request: no failure is logged
  and no other backend is tried, although the next one would have answered a vector. A
  second call for the same URL returns the empty vector from the memo.
\<close>

theorem C6_malformed_body_accepted_counterexample:
  "hfFetch ex_env_hf_error_body 0 (snd (backends ex_config_hf ! 0)) ''bytes''
     = RespOk (JObj [(''error'', JStr ''Model is overloaded'')])
   \<and> hfFetch ex_env_hf_error_body 1 (snd (backends ex_config_hf ! 1)) ''bytes''
     = RespOk (JArr [JNum 1, JNum 0])
   \<and> getEmbedding ex_config_hf ex_env_hf_error_body ''https://cdn.example.com/p/1.jpg'' ex_state_hf0
     = (Inr [], ex_state_hf0\<lparr>requests := 1,
                              embedCache := [''https://cdn.example.com/p/1.jpg'' \<mapsto> []]\<rparr>)
   \<and> getEmbedding ex_config_hf ex_env_hf_error_body ''https://cdn.example.com/p/1.jpg''
       (ex_state_hf0\<lparr>requests := 1,
                      embedCache := [''https://cdn.example.com/p/1.jpg'' \<mapsto> []]\<rparr>)
     = (Inr [], ex_state_hf0\<lparr>requests := 1,
                              embedCache := [''https://cdn.example.com/p/1.jpg'' \<mapsto> []]\<rparr>)"
proof (intro conjI)
  show "hfFetch ex_env_hf_error_body 0 (snd (backends ex_config_hf ! 0)) ''bytes''
     = RespOk (JObj [(''error'', JStr ''Model is overloaded'')])"
    by (simp add: ex_env_hf_error_body_def)
  show "hfFetch ex_env_hf_error_body 1 (snd (backends ex_config_hf ! 1)) ''bytes''
     = RespOk (JArr [JNum 1, JNum 0])"
    by (simp add: ex_env_hf_error_body_def)
  show "getEmbedding ex_config_hf ex_env_hf_error_body ''https://cdn.example.com/p/1.jpg'' ex_state_hf0
     = (Inr [], ex_state_hf0\<lparr>requests := 1,
                              embedCache := [''https://cdn.example.com/p/1.jpg'' \<mapsto> []]\<rparr>)"
    by (rule ex_getEmbedding_error_body)
  show "getEmbedding ex_config_hf ex_env_hf_error_body ''https://cdn.example.com/p/1.jpg''
       (ex_state_hf0\<lparr>requests := 1,
                      embedCache := [''https://cdn.example.com/p/1.jpg'' \<mapsto> []]\<rparr>)
     = (Inr [], ex_state_hf0\<lparr>requests := 1,
                              embedCache := [''https://cdn.example.com/p/1.jpg'' \<mapsto> []]\<rparr>)"
    by (simp add: getEmbedding_def)
qed

text \<open>
  C6, amended. One call of \<^verbatim>\<open>tryEmbed\<close> for a backend sends between one and three requests;
  before the request of attempt \<open>k + 1\<close> it waits \<open>400 * k\<close> milliseconds; every request but
  the last was answered by one of the statuses 500, 502, 503, 504; the last answer is
  final (a status 200, a thrown error, a status outside that list, or the third attempt)
  and decides the result: a failure for a status that is not 200, for an error thrown by
  \<^verbatim>\<open>fetch\<close> or by the parsing of the body, and for a body on which \<^verbatim>\<open>poolToVector\<close> throws;
  the vector \<^verbatim>\<open>poolToVector\<close> returns for every other body with status 200, whatever its
  shape (the empty vector for a number, a boolean and an object with no member \<^verbatim>\<open>length\<close>,
  one cell for every character of a string).

  For a URL that is not in the memo, with the key set and the image fetched,
  \<^verbatim>\<open>getEmbedding\<close> goes through its nine backends in their fixed order: the backends before
  some position \<open>k\<close> fail, each tried with \<^verbatim>\<open>tryEmbed\<close> in the state the one before left and
  each logged; then either backend \<open>k\<close> succeeds, its vector is stored in the memo and
  returned, and no later backend is tried, or all nine have failed and the error of the
  last is thrown.
\<close>

theorem C6_tries_backoff_and_fallback:
  assumes "tryEmbed e route buf st = (res, st')"
    and "embedCache st0 url = None" and "HF_KEY cfg \<noteq> []" and "fetchImageBuffer e url = Inr buf0"
  shows "(\<exists>n. 1 \<le> n \<and> n \<le> 3
             \<and> requests st' = requests st + n
             \<and> sleeps st' = sleeps st @ map (\<lambda>k. 400 * k) [1..<n]
             \<and> (\<forall>k. 1 \<le> k \<and> k < n \<longrightarrow>
                   (\<exists>s t. hfFetch e (requests st + (k - 1)) route buf = RespStatus s t
                           \<and> retryable s \<and> 500 \<le> s \<and> s < 600))
             \<and> final (hfFetch e (requests st + (n - 1)) route buf) n
             \<and> res = outcome e route (hfFetch e (requests st + (n - 1)) route buf))
         \<and> (\<exists>k sts. k \<le> 9 \<and> length sts = Suc k \<and> sts ! 0 = st0
               \<and> (\<forall>i<k. \<exists>err s1.
                      tryEmbed e (snd (backends cfg ! i)) buf0 (sts ! i) = (Inl err, s1)
                      \<and> sts ! Suc i
                          = s1\<lparr>logged_hf := logged_hf s1 @ [HfTryFail (fst (backends cfg ! i)) err]\<rparr>)
               \<and> (k < 9 \<longrightarrow>
                    (\<exists>vec s1. tryEmbed e (snd (backends cfg ! k)) buf0 (sts ! k) = (Inr vec, s1)
                       \<and> getEmbedding cfg e url st0
                           = (Inr vec, s1\<lparr>embedCache := (embedCache s1)(url \<mapsto> vec)\<rparr>)))
               \<and> (k = 9 \<longrightarrow>
                    (\<exists>err. getEmbedding cfg e url st0 = (Inl err, sts ! 9)
                       \<and> fst (tryEmbed e (snd (backends cfg ! 8)) buf0 (sts ! 8)) = Inl err)))
         \<and> backends cfg =
             [(HF_MODELS cfg ! 0, HF_ROUTES (HF_MODELS cfg ! 0) ! 0),
              (HF_MODELS cfg ! 0, HF_ROUTES (HF_MODELS cfg ! 0) ! 1),
              (HF_MODELS cfg ! 0, HF_ROUTES (HF_MODELS cfg ! 0) ! 2),
              (HF_MODELS cfg ! 1, HF_ROUTES (HF_MODELS cfg ! 1) ! 0),
              (HF_MODELS cfg ! 1, HF_ROUTES (HF_MODELS cfg ! 1) ! 1),
              (HF_MODELS cfg ! 1, HF_ROUTES (HF_MODELS cfg ! 1) ! 2),
              (HF_MODELS cfg ! 2, HF_ROUTES (HF_MODELS cfg ! 2) ! 0),
              (HF_MODELS cfg ! 2, HF_ROUTES (HF_MODELS cfg ! 2) ! 1),
              (HF_MODELS cfg ! 2, HF_ROUTES (HF_MODELS cfg ! 2) ! 2)]
         \<and> outcome e route (RespOk (JNum x)) = Inr []
         \<and> outcome e route (RespOk (JBool b)) = Inr []
         \<and> (''length'' \<notin> fst ` set kvs \<longrightarrow> outcome e route (RespOk (JObj kvs)) = Inr [])
         \<and> outcome e route (RespOk (JStr s)) = Inr (map charToNumber s)
         \<and> outcome e route (RespOk JNull) = Inl (Thrown ''TypeError'')
         \<and> outcome e route (RespThrows msg) = Inl (Thrown msg)
         \<and> outcome e route (RespStatus 401 txt)
             = Inl (HfStatus 401 route (if txt = [] then ''error'' else txt))"
proof (intro conjI)
  have le: "(1::nat) \<le> maxAttempts"
    by (simp add: maxAttempts_def)
  from tryEmbedFrom_run [OF le, of e route buf None st res st'] assms(1)
  obtain n where n: "1 \<le> n" "n \<le> maxAttempts"
    "requests st' = requests st + (n - 1) + 1"
    "sleeps st' = sleeps st @ map (\<lambda>k. 400 * k) [1..<n]"
    "\<forall>k. 1 \<le> k \<and> k < n \<longrightarrow>
         (\<exists>s t. hfFetch e (requests st + (k - 1)) route buf = RespStatus s t \<and> retryable s)"
    "final (hfFetch e (requests st + (n - 1)) route buf) n"
    "res = outcome e route (hfFetch e (requests st + (n - 1)) route buf)"
    unfolding tryEmbed_def by blast
  have c2: "n \<le> 3"
    using n(2) by (simp add: maxAttempts_def)
  have c3: "requests st' = requests st + n"
    using n(1,3) by simp
  have c5: "\<forall>k. 1 \<le> k \<and> k < n \<longrightarrow>
         (\<exists>s t. hfFetch e (requests st + (k - 1)) route buf = RespStatus s t
                 \<and> retryable s \<and> 500 \<le> s \<and> s < 600)"
    using n(5) retryable_5xx by blast
  from n(1) c2 c3 n(4) c5 n(6) n(7)
  show "\<exists>n. 1 \<le> n \<and> n \<le> 3
             \<and> requests st' = requests st + n
             \<and> sleeps st' = sleeps st @ map (\<lambda>k. 400 * k) [1..<n]
             \<and> (\<forall>k. 1 \<le> k \<and> k < n \<longrightarrow>
                   (\<exists>s t. hfFetch e (requests st + (k - 1)) route buf = RespStatus s t
                           \<and> retryable s \<and> 500 \<le> s \<and> s < 600))
             \<and> final (hfFetch e (requests st + (n - 1)) route buf) n
             \<and> res = outcome e route (hfFetch e (requests st + (n - 1)) route buf)"
    by blast
next
  have len: "length (backends cfg) = 9"
    by (simp add: backends_order)
  have g: "getEmbedding cfg e url st0 = tryBackends e url buf0 (backends cfg) None st0"
    using assms(2,3,4) by (simp add: getEmbedding_def)
  from tryBackends_trace [of "backends cfg" st0 e buf0 url None, unfolded len]
  obtain k sts where all: "k \<le> 9 \<and> length sts = Suc k \<and> sts ! 0 = st0
     \<and> (\<forall>i<k. \<exists>err s1. tryEmbed e (snd (backends cfg ! i)) buf0 (sts ! i) = (Inl err, s1)
                \<and> sts ! Suc i = s1\<lparr>logged_hf := logged_hf s1 @ [HfTryFail (fst (backends cfg ! i)) err]\<rparr>)
     \<and> (k < 9 \<longrightarrow>
          (\<exists>vec s1. tryEmbed e (snd (backends cfg ! k)) buf0 (sts ! k) = (Inr vec, s1)
             \<and> tryBackends e url buf0 (backends cfg) None st0
                 = (Inr vec, s1\<lparr>embedCache := (embedCache s1)(url \<mapsto> vec)\<rparr>)))
     \<and> (k = 9 \<longrightarrow>
          (\<exists>err. tryBackends e url buf0 (backends cfg) None st0 = (Inl err, sts ! k)
             \<and> (k = 0 \<longrightarrow> err = (case None of Some x \<Rightarrow> x | None \<Rightarrow> AllEndpointsFailed))
             \<and> (0 < k \<longrightarrow> fst (tryEmbed e (snd (backends cfg ! (k - 1))) buf0 (sts ! (k - 1))) = Inl err)))"
    by (elim exE) (rule that)
  note tr = conjunct1 [OF all] conjunct1 [OF conjunct2 [OF all]]
    conjunct1 [OF conjunct2 [OF conjunct2 [OF all]]]
    conjunct1 [OF conjunct2 [OF conjunct2 [OF conjunct2 [OF all]]]]
    conjunct1 [OF conjunct2 [OF conjunct2 [OF conjunct2 [OF conjunct2 [OF all]]]]]
    conjunct2 [OF conjunct2 [OF conjunct2 [OF conjunct2 [OF conjunct2 [OF all]]]]]
  have last: "k = 9 \<longrightarrow>
                    (\<exists>err. getEmbedding cfg e url st0 = (Inl err, sts ! 9)
                       \<and> fst (tryEmbed e (snd (backends cfg ! 8)) buf0 (sts ! 8)) = Inl err)"
    using tr(6) g by auto
  from tr(1,2,3,4) tr(5) [folded g] last
  show "\<exists>k sts. k \<le> 9 \<and> length sts = Suc k \<and> sts ! 0 = st0
               \<and> (\<forall>i<k. \<exists>err s1.
                      tryEmbed e (snd (backends cfg ! i)) buf0 (sts ! i) = (Inl err, s1)
                      \<and> sts ! Suc i
                          = s1\<lparr>logged_hf := logged_hf s1 @ [HfTryFail (fst (backends cfg ! i)) err]\<rparr>)
               \<and> (k < 9 \<longrightarrow>
                    (\<exists>vec s1. tryEmbed e (snd (backends cfg ! k)) buf0 (sts ! k) = (Inr vec, s1)
                       \<and> getEmbedding cfg e url st0
                           = (Inr vec, s1\<lparr>embedCache := (embedCache s1)(url \<mapsto> vec)\<rparr>)))
               \<and> (k = 9 \<longrightarrow>
                    (\<exists>err. getEmbedding cfg e url st0 = (Inl err, sts ! 9)
                       \<and> fst (tryEmbed e (snd (backends cfg ! 8)) buf0 (sts ! 8)) = Inl err))"
    by blast
next
  show "backends cfg =
             [(HF_MODELS cfg ! 0, HF_ROUTES (HF_MODELS cfg ! 0) ! 0),
              (HF_MODELS cfg ! 0, HF_ROUTES (HF_MODELS cfg ! 0) ! 1),
              (HF_MODELS cfg ! 0, HF_ROUTES (HF_MODELS cfg ! 0) ! 2),
              (HF_MODELS cfg ! 1, HF_ROUTES (HF_MODELS cfg ! 1) ! 0),
              (HF_MODELS cfg ! 1, HF_ROUTES (HF_MODELS cfg ! 1) ! 1),
              (HF_MODELS cfg ! 1, HF_ROUTES (HF_MODELS cfg ! 1) ! 2),
              (HF_MODELS cfg ! 2, HF_ROUTES (HF_MODELS cfg ! 2) ! 0),
              (HF_MODELS cfg ! 2, HF_ROUTES (HF_MODELS cfg ! 2) ! 1),
              (HF_MODELS cfg ! 2, HF_ROUTES (HF_MODELS cfg ! 2) ! 2)]"
    by (rule backends_order)
next
  show "outcome e route (RespOk (JNum x)) = Inr []"
    "outcome e route (RespOk (JBool b)) = Inr []"
    "outcome e route (RespOk (JStr s)) = Inr (map charToNumber s)"
    "outcome e route (RespOk JNull) = Inl (Thrown ''TypeError'')"
    "outcome e route (RespThrows msg) = Inl (Thrown msg)"
    "outcome e route (RespStatus 401 txt)
       = Inl (HfStatus 401 route (if txt = [] then ''error'' else txt))"
    by (simp_all add: outcome_def)
  show "''length'' \<notin> fst ` set kvs \<longrightarrow> outcome e route (RespOk (JObj kvs)) = Inr []"
    by (simp add: outcome_def)
qed

theorem C6_tries_backoff_and_fallback_witness:
  "tryEmbed ex_env_hf_mixed ''r'' ''bytes'' (ex_state_hf0\<lparr>requests := 1\<rparr>)
     = (Inr [Some 1, Some 0], ex_state_hf0\<lparr>requests := 4, sleeps := [400, 800]\<rparr>)
   \<and> (\<exists>n. 1 \<le> n \<and> n \<le> 3 \<and> (4::nat) = 1 + n
          \<and> [400, 800] = map (\<lambda>k. 400 * k) [1..<n]
          \<and> final (hfFetch ex_env_hf_mixed (1 + (n - 1)) ''r'' ''bytes'') n
          \<and> Inr [Some 1, Some 0]
              = outcome ex_env_hf_mixed ''r'' (hfFetch ex_env_hf_mixed (1 + (n - 1)) ''r'' ''bytes''))
   \<and> getEmbedding ex_config_hf ex_env_hf_mixed ''https://cdn.example.com/p/1.jpg'' ex_state_hf0
     = (Inr [Some 1, Some 0],
        \<lparr>embedCache = [''https://cdn.example.com/p/1.jpg'' \<mapsto> [Some 1, Some 0]],
         groups = [],
         logged_hf =
           [HfTryFail ''sentence-transformers/clip-ViT-B-32''
              (HfStatus 401
                 ''https://api-inference.huggingface.co/pipeline/image-feature-extraction/sentence-transformers/clip-ViT-B-32''
                 ''Unauthorized'')],
         requests = 4, sleeps = [400, 800]\<rparr>)
   \<and> (\<exists>k sts. k \<le> 9 \<and> length sts = Suc k \<and> sts ! 0 = ex_state_hf0
         \<and> (k < 9 \<longrightarrow>
              (\<exists>vec s1. tryEmbed ex_env_hf_mixed (snd (backends ex_config_hf ! k)) ''bytes'' (sts ! k)
                          = (Inr vec, s1)
                 \<and> getEmbedding ex_config_hf ex_env_hf_mixed ''https://cdn.example.com/p/1.jpg''
                     ex_state_hf0
                   = (Inr vec,
                      s1\<lparr>embedCache := (embedCache s1)(''https://cdn.example.com/p/1.jpg'' \<mapsto> vec)\<rparr>))))"
proof -
  have run: "tryEmbed ex_env_hf_mixed ''r'' ''bytes'' (ex_state_hf0\<lparr>requests := 1\<rparr>)
     = (Inr [Some 1, Some 0], ex_state_hf0\<lparr>requests := 4, sleeps := [400, 800]\<rparr>)"
    using ex_tryEmbed_mixed_later [of "ex_state_hf0\<lparr>requests := 1\<rparr>" "''r''"]
    by (simp add: ex_state_hf0_def)
  have c: "embedCache ex_state_hf0 ''https://cdn.example.com/p/1.jpg'' = None"
    by (simp add: ex_state_hf0_def)
  have k: "HF_KEY ex_config_hf \<noteq> []"
    by (simp add: ex_config_hf_def)
  have f: "fetchImageBuffer ex_env_hf_mixed ''https://cdn.example.com/p/1.jpg'' = Inr ''bytes''"
    by (simp add: ex_env_hf_mixed_def)
  note inst = C6_tries_backoff_and_fallback [OF run c k f]
  from conjunct1 [OF inst]
  have "\<exists>n. 1 \<le> n \<and> n \<le> 3 \<and> (4::nat) = 1 + n
          \<and> [400, 800] = map (\<lambda>k. 400 * k) [1..<n]
          \<and> final (hfFetch ex_env_hf_mixed (1 + (n - 1)) ''r'' ''bytes'') n
          \<and> Inr [Some 1, Some 0]
              = outcome ex_env_hf_mixed ''r'' (hfFetch ex_env_hf_mixed (1 + (n - 1)) ''r'' ''bytes'')"
    by (simp add: ex_state_hf0_def)
  moreover from conjunct1 [OF conjunct2 [OF inst]]
  have "\<exists>k sts. k \<le> 9 \<and> length sts = Suc k \<and> sts ! 0 = ex_state_hf0
         \<and> (k < 9 \<longrightarrow>
              (\<exists>vec s1. tryEmbed ex_env_hf_mixed (snd (backends ex_config_hf ! k)) ''bytes'' (sts ! k)
                          = (Inr vec, s1)
                 \<and> getEmbedding ex_config_hf ex_env_hf_mixed ''https://cdn.example.com/p/1.jpg''
                     ex_state_hf0
                   = (Inr vec,
                      s1\<lparr>embedCache := (embedCache s1)(''https://cdn.example.com/p/1.jpg'' \<mapsto> vec)\<rparr>)))"
    by blast
  ultimately show ?thesis
    using run ex_getEmbedding_mixed by blast
qed
subsection \<open>The candidate pool of \<^verbatim>\<open>part_001\<close>\<close>

lemma bestOverVecs_fold:
  "bestOverVecs pv c acc = fold pickBetter (map (\<lambda>rv. (cosine pv rv, r_label c)) (r_vecs c)) acc"
proof -
  have "fold (\<lambda>rv (maxSim, bestLabel).
             let s = cosine pv rv in
             if s > maxSim then (s, r_label c) else (maxSim, bestLabel)) vs acc
        = fold pickBetter (map (\<lambda>rv. (cosine pv rv, r_label c)) vs) acc" for vs
    by (induction vs arbitrary: acc) (auto simp add: pickBetter_def Let_def split: prod.splits)
  then show ?thesis
    by (simp add: bestOverVecs_def)
qed

lemma bestOverPool_fold:
  "bestOverPool pool pv acc
   = fold pickBetter (concat (map (\<lambda>c. map (\<lambda>rv. (cosine pv rv, r_label c)) (r_vecs c)) pool)) acc"
  unfolding bestOverPool_def
  by (induction pool arbitrary: acc) (simp_all add: bestOverVecs_fold)

lemma bestMatch_fold:
  "bestMatch photoVecs pool = fold pickBetter (comparisons photoVecs pool) (- 1, ''none'')"
proof -
  have "fold (bestOverPool pool) pvs acc = fold pickBetter (comparisons pvs pool) acc" for pvs acc
    by (induction pvs arbitrary: acc) (simp_all add: comparisons_def bestOverPool_fold)
  then show ?thesis
    by (simp add: bestMatch_def)
qed

lemma fold_pickBetter_max:
  "fst (fold pickBetter xs acc) = fold max (map fst xs) (fst acc)"
proof (induction xs arbitrary: acc)
  case Nil
  show ?case by simp
next
  case (Cons x xs)
  have "fst (pickBetter x acc) = max (fst x) (fst acc)"
    by (simp add: pickBetter_def max_def)
  with Cons.IH [of "pickBetter x acc"] show ?case
    by simp
qed

lemma fold_pickBetter_fst:
  "fst (fold pickBetter xs acc) = Max (insert (fst acc) (fst ` set xs))"
proof -
  have "Max (set (fst acc # map fst xs)) = fold max (map fst xs) (fst acc)"
    by (rule Max.set_eq_fold)
  then show ?thesis
    by (simp add: fold_pickBetter_max)
qed

lemma fold_pickBetter_snd:
  "snd (fold pickBetter xs acc) = snd acc \<or> snd (fold pickBetter xs acc) \<in> snd ` set xs"
proof (induction xs arbitrary: acc)
  case Nil
  show ?case by simp
next
  case (Cons x xs)
  from Cons.IH [of "pickBetter x acc"] show ?case
    by (auto simp add: pickBetter_def split: if_splits)
qed

lemma comparisons_labels: "snd ` set (comparisons photoVecs pool) \<subseteq> r_label ` set pool"
  by (auto simp add: comparisons_def)

lemma candidatePool_known:
  assumes "list_ex (\<lambda>c. r_gender c \<noteq> ''unknown'') cs"
  shows "candidatePool GEN cs = filter (eligible GEN) cs"
  using assms by (simp add: candidatePool_def eligible_def [abs_def])

text \<open>
  C10: in \<^verbatim>\<open>part_001\<close>, when some cached group has a gender tag other than \<^verbatim>\<open>unknown\<close>,
  the candidate pool is the cached groups whose tag is the gender of the submission or
  \<^verbatim>\<open>unknown\<close>, in cache order; the similarity reported is the greatest similarity between
  a photo of the submission and a reference vector of such a group (or \<open>-1\<close> when there
  is no comparison), mapped to \<open>[0, 1]\<close>; and the label reported is \<^verbatim>\<open>none\<close> or the
  label of such a group.
\<close>

theorem C10_pool_excludes_other_gender:
  assumes "list_ex (\<lambda>c. r_gender c \<noteq> ''unknown'') (groups st)"
    and "faceBlock_p001 cfg e GEN phs st = ((faceScore, faceCluster, faceReason), st1)"
  shows "candidatePool GEN (groups st) = filter (eligible GEN) (groups st)
         \<and> faceScore = clamp01 ((Max (insert (- 1) (fst ` set (comparisons
                (fst (embedPhotos_p001 cfg e phs [] st)) (filter (eligible GEN) (groups st))))) + 1) / 2)
         \<and> (faceCluster = ''none''
              \<or> (\<exists>c \<in> set (groups st). eligible GEN c \<and> r_label c = faceCluster))"
proof -
  let ?pool = "filter (eligible GEN) (groups st)"
  have pool: "candidatePool GEN (groups st) = ?pool"
    using assms(1) by (rule candidatePool_known)
  have ne: "groups st \<noteq> []"
    using assms(1) by auto
  obtain pvs st' where ep: "embedPhotos_p001 cfg e phs [] st = (pvs, st')"
    by (cases "embedPhotos_p001 cfg e phs [] st")
  obtain maxSim bestLabel where bm: "bestMatch pvs ?pool = (maxSim, bestLabel)"
    by (cases "bestMatch pvs ?pool")
  have ms: "maxSim = Max (insert (- 1) (fst ` set (comparisons pvs ?pool)))"
    using fold_pickBetter_fst [of "comparisons pvs ?pool" "(- 1, ''none'')"] bm
    by (simp add: bestMatch_fold)
  have "- 1 \<le> Max (insert (- 1 :: real) (fst ` set (comparisons pvs ?pool)))"
    by (rule Max_ge) simp_all
  then have ge: "maxSim \<ge> - 1"
    using ms by simp
  have lbl: "bestLabel = ''none'' \<or> bestLabel \<in> snd ` set (comparisons pvs ?pool)"
    using fold_pickBetter_snd [of "comparisons pvs ?pool" "(- 1, ''none'')"] bm
    by (simp add: bestMatch_fold)
  have res: "faceScore = clamp01 ((maxSim + 1) / 2)" "faceCluster = bestLabel"
    using assms(2) ne ep bm ge by (simp_all add: faceBlock_p001_def pool Let_def)
  have "faceCluster = ''none'' \<or> (\<exists>c \<in> set (groups st). eligible GEN c \<and> r_label c = faceCluster)"
  proof (cases "bestLabel = ''none''")
    case True
    then show ?thesis using res(2) by simp
  next
    case False
    with lbl have "bestLabel \<in> snd ` set (comparisons pvs ?pool)"
      by simp
    with comparisons_labels [of pvs ?pool] have "bestLabel \<in> r_label ` set ?pool"
      by blast
    then obtain c where "c \<in> set ?pool" "r_label c = bestLabel"
      by auto
    then have "c \<in> set (groups st) \<and> eligible GEN c \<and> r_label c = faceCluster"
      using res(2) by simp
    then show ?thesis by blast
  qed
  then show ?thesis
    using pool res(1) ms ep by simp
qed

lemma ex_backends: "backends ex_config_hf =
   (''sentence-transformers/clip-ViT-B-32'',
    ''https://api-inference.huggingface.co/pipeline/image-feature-extraction/sentence-transformers/clip-ViT-B-32'')
   # tl (backends ex_config_hf)"
  by (simp add: backends_def HF_MODELS_def HF_ROUTES_def ex_config_hf_def)

lemma ex_getEmbedding_flaky:
  "getEmbedding ex_config_hf ex_env_hf_flaky ''https://cdn.example.com/p/1.jpg'' ex_state_hf3
   = (Inr [Some 1, Some 0],
      ex_state_hf3\<lparr>requests := 3, sleeps := [400, 800],
                    embedCache := [''https://cdn.example.com/p/1.jpg'' \<mapsto> [Some 1, Some 0]]\<rparr>)"
proof -
  have c: "embedCache ex_state_hf3 ''https://cdn.example.com/p/1.jpg'' = None"
    by (simp add: ex_state_hf3_def)
  have k: "HF_KEY ex_config_hf \<noteq> []"
    by (simp add: ex_config_hf_def)
  have f: "fetchImageBuffer ex_env_hf_flaky ''https://cdn.example.com/p/1.jpg'' = Inr ''bytes''"
    by (simp add: ex_env_hf_flaky_def)
  have "getEmbedding ex_config_hf ex_env_hf_flaky ''https://cdn.example.com/p/1.jpg'' ex_state_hf3
        = tryBackends ex_env_hf_flaky ''https://cdn.example.com/p/1.jpg'' ''bytes''
            (backends ex_config_hf) None ex_state_hf3"
    by (simp add: getEmbedding_def c k f)
  also have "\<dots> = (Inr [Some 1, Some 0],
      ex_state_hf3\<lparr>requests := 3, sleeps := [400, 800],
                    embedCache := [''https://cdn.example.com/p/1.jpg'' \<mapsto> [Some 1, Some 0]]\<rparr>)"
    by (subst ex_backends) (simp add: ex_tryEmbed_flaky, simp add: ex_state_hf3_def)
  finally show ?thesis .
qed

lemma cosine_unit_orthogonal: "cosine [Some 1, Some 0] [Some 0, Some 1] = 0"
  by (simp add: cosine_def cosineSums_def)

lemma cosine_unit_orthogonal': "cosine [Some 1, Some 0] [Some 0, Some (- 1)] = 0"
  by (simp add: cosine_def cosineSums_def)

lemma ex_pool: "candidatePool ''female'' ex_groups3 = tl ex_groups3"
  by (simp add: candidatePool_def ex_groups3_def)

lemma ex_faceBlock_flaky:
  "fst (faceBlock_p001 ex_config_hf ex_env_hf_flaky ''female'' [''https://cdn.example.com/p/1.jpg'']
     ex_state_hf3)
   = (1 / 2, ''Reference Female A'', ''low similarity to reference look'')"
proof -
  have g: "groups ex_state_hf3 = ex_groups3"
    by (simp add: ex_state_hf3_def)
  have ne: "ex_groups3 \<noteq> []"
    by (simp add: ex_groups3_def)
  have bm: "bestMatch [[Some 1, Some 0]] (tl ex_groups3) = (0, ''Reference Female A'')"
    by (simp add: bestMatch_def bestOverPool_def bestOverVecs_def ex_groups3_def
        cosine_unit_orthogonal cosine_unit_orthogonal')
  have fr: "faceReasonOf (1 / 2) = ''low similarity to reference look''"
    by (simp add: faceReasonOf_def)
  show ?thesis
    by (simp add: faceBlock_p001_def g ne ex_pool ex_getEmbedding_flaky bm clamp01_def clamp_def fr)
qed


theorem C10_pool_excludes_other_gender_witness:
  "list_ex (\<lambda>c. r_gender c \<noteq> ''unknown'') (groups ex_state_hf3)
   \<and> fst (faceBlock_p001 ex_config_hf ex_env_hf_flaky ''female''
              [''https://cdn.example.com/p/1.jpg''] ex_state_hf3)
       = (1 / 2, ''Reference Female A'', ''low similarity to reference look'')
   \<and> candidatePool ''female'' (groups ex_state_hf3) = filter (eligible ''female'') (groups ex_state_hf3)
   \<and> map r_label (filter (eligible ''female'') (groups ex_state_hf3))
       = [''Reference Female A'', ''Reference Looks'']
   \<and> (\<exists>c \<in> set (groups ex_state_hf3). eligible ''female'' c \<and> r_label c = ''Reference Female A'')"
proof -
  have known: "list_ex (\<lambda>c. r_gender c \<noteq> ''unknown'') (groups ex_state_hf3)"
    by (simp add: ex_state_hf3_def ex_groups3_def)
  obtain st1 where run:
    "faceBlock_p001 ex_config_hf ex_env_hf_flaky ''female'' [''https://cdn.example.com/p/1.jpg'']
       ex_state_hf3
     = ((1 / 2, ''Reference Female A'', ''low similarity to reference look''), st1)"
    using ex_faceBlock_flaky
    by (cases "faceBlock_p001 ex_config_hf ex_env_hf_flaky ''female''
                 [''https://cdn.example.com/p/1.jpg''] ex_state_hf3") simp
  have labels: "map r_label (filter (eligible ''female'') (groups ex_state_hf3))
       = [''Reference Female A'', ''Reference Looks'']"
    by (simp add: ex_state_hf3_def ex_groups3_def eligible_def)
  have nn: "''Reference Female A'' \<noteq> ''none''"
    by simp
  from C10_pool_excludes_other_gender [OF known run] nn
  have "candidatePool ''female'' (groups ex_state_hf3) = filter (eligible ''female'') (groups ex_state_hf3)"
    and "\<exists>c \<in> set (groups ex_state_hf3). eligible ''female'' c \<and> r_label c = ''Reference Female A''"
    by blast+
  with known run labels show ?thesis
    by simp
qed

subsection \<open>The confidence blend\<close>

lemma blend_spec:
  "blend ms hs fs (length phs) tb = confidence_spec ms hs fs phs tb"
  by (simp add: blend_def confidence_spec_def photoBoost_def clamp01_def clamp_def)

lemma tinyNoise_bounds: "0 \<le> tinyNoise e phs \<and> tinyNoise e phs \<le> 0.0099"
proof -
  have "sha256_hex6 e (join phs ''|'') mod 100 \<le> 99"
    by simp
  then have "real (sha256_hex6 e (join phs ''|'') mod 100) \<le> 99"
    by (metis of_nat_le_iff of_nat_numeral)
  then show ?thesis
    by (simp add: tinyNoise_def)
qed

text \<open>
  The older rule-only handler blends with other weights and has no face term.
\<close>

lemma evaluate_old_blend:
  assumes "evaluate_old key e req = Ok200_old r"
  shows "confidence_old r =
           max 0 (min 1
             (0.55 * measScore_old (PREFS_old (resolveGEN (gender req))) (parseMeas (measurements req))
              + 0.35 * heightScoreFactory (height (PREFS_old (resolveGEN (gender req)))) (height_cm req)
              + 0.10 * (if photos req \<noteq> [] then 0.6 else 0)
              + max 0 (min 0.12 ((real (length (photos req)) - 2) * 0.04))
              + tinyNoise e (photos req)))"
  using assms
  by (auto simp add: evaluate_old_def Let_def blend_old_def photoBoost_def clamp01_def clamp_def
      split: if_splits)

text \<open>
  C1, as stated, fails in two of the handlers. The rule-only handler (the first file of
  \<^verbatim>\<open>part_002\<close>) has no face term and blends with the weights 0.55, 0.35 and 0.10: for the
  request below (no measurements, no height, one photo, tie-break 0.0047) it answers
  0.0647. The handler of \<^verbatim>\<open>part_000\<close> with \<^verbatim>\<open>LIGHT_MODE\<close> on answers the fixed confidence
  0.75. The blend of the claim is 0.1847 for this request, with the face similarity 0.5
  that the handlers with a face term report for it when no reference is loaded.
\<close>

theorem C1_other_blends_counterexample:
  "evaluate_old ''secret'' ex_env_empty ex_request =
     Ok200_old \<lparr>decision_old = ''reject'', confidence_old = 0.0647,
                reason_old = ''insufficient digitals''\<rparr>
   \<and> evaluate_p000 ex_config_light ex_env_empty [] ex_request =
     Ok200 \<lparr>decision = ''review'', confidence = 0.75,
            reason = ''Endpoint OK; mock (LIGHT_MODE).'',
            face_similarity = 0.5, face_cluster = ''none''\<rparr>
   \<and> confidence_spec
         (measScore_p000 (resolveGEN (gender ex_request)) (PREFS (resolveGEN (gender ex_request)))
            (parseMeas (measurements ex_request)))
         (heightScoreFactory (height (PREFS (resolveGEN (gender ex_request)))) (height_cm ex_request))
         0.5 (photos ex_request) (tinyNoise ex_env_empty (photos ex_request))
       = 0.1847"
proof (intro conjI)
  have noise: "tinyNoise ex_env_empty (photos ex_request) = 47 / 10000"
    by (simp add: tinyNoise_def ex_env_empty_def ex_request_def ex_sha256_hex6_def)
  have auth_old: "authorized ''secret'' (authorization ex_request)"
    by (simp add: authorized_def ex_request_def startsWith_def)
  have ms: "measScore_old P None = 0" for P
    by (simp add: measScore_old_def)
  have bl: "blend_old 0 0 (Suc 0) (47 / 10000) = 647 / 10000"
    by (simp add: blend_old_def photoBoost_def clamp01_def clamp_def)
  have dc: "decide (647 / 10000) = ''reject''"
    by (simp add: decide_def)
  have mr: "measReasons_old None x = []" for x
    by (simp add: measReasons_old_def)
  show "evaluate_old ''secret'' ex_env_empty ex_request =
     Ok200_old \<lparr>decision_old = ''reject'', confidence_old = 0.0647,
                reason_old = ''insufficient digitals''\<rparr>"
    by (simp add: evaluate_old_def auth_old ex_request_facts Let_def ms heightScore_NoHeight noise
        bl dc heightReasons_NoHeight mr)
  have auth: "authorized (EVALUATOR_API_KEY ex_config_light) (authorization ex_request)"
    by (simp add: authorized_def ex_config_light_def ex_request_def startsWith_def)
  have light: "LIGHT_MODE ex_config_light"
    by (simp add: ex_config_light_def)
  show "evaluate_p000 ex_config_light ex_env_empty [] ex_request =
     Ok200 \<lparr>decision = ''review'', confidence = 0.75,
            reason = ''Endpoint OK; mock (LIGHT_MODE).'',
            face_similarity = 0.5, face_cluster = ''none''\<rparr>"
    by (simp add: evaluate_p000_def auth light ex_request_facts)
  show "confidence_spec
         (measScore_p000 (resolveGEN (gender ex_request)) (PREFS (resolveGEN (gender ex_request)))
            (parseMeas (measurements ex_request)))
         (heightScoreFactory (height (PREFS (resolveGEN (gender ex_request)))) (height_cm ex_request))
         0.5 (photos ex_request) (tinyNoise ex_env_empty (photos ex_request))
       = 0.1847"
    by (simp add: ex_request_facts measScore_p000_None heightScore_NoHeight noise confidence_spec_def)
qed

text \<open>
  C1, amended: the handlers with a face term (\<^verbatim>\<open>part_000\<close> with \<^verbatim>\<open>LIGHT_MODE\<close> off,
  \<^verbatim>\<open>part_001\<close>, and the second file of \<^verbatim>\<open>part_002\<close>) give every submission they score the
  confidence of the blend of the specification, computed from the measurement score, the
  height score and the face similarity of that file. The rule-only handler (the first file
  of \<^verbatim>\<open>part_002\<close>) gives \<open>0.55\<close> times its measurement score plus \<open>0.35\<close> times its height
  score plus \<open>0.10 * 0.6\<close> plus the photo bonus and the tie-break, clamped to \<open>[0, 1]\<close>, with
  no face term. In \<^verbatim>\<open>part_000\<close> with \<^verbatim>\<open>LIGHT_MODE\<close> on, no submission is scored and the
  confidence is the constant 0.75. The tie-break lies between 0 and 0.0099.
\<close>

theorem C1_confidence_blend:
  fixes req :: request and e :: env and e1 :: "'b env_hf_scheme"
  defines "GEN \<equiv> resolveGEN (gender req)"
  defines "m \<equiv> parseMeas (measurements req)"
  defines "hs \<equiv> heightScoreFactory (height (PREFS GEN)) (height_cm req)"
  defines "tieBreak \<equiv> real (sha256_hex6 e (join (photos req) ''|'') mod 100) / 10000"
  defines "tieBreak1 \<equiv> real (sha256_hex6 e1 (join (photos req) ''|'') mod 100) / 10000"
  shows "(evaluate_p000 cfg e cs req = Ok200 r \<longrightarrow>
            confidence r =
              (if LIGHT_MODE cfg then 0.75
               else confidence_spec (measScore_p000 GEN (PREFS GEN) m) hs
                      (fst (faceBlock e cs (photos req))) (photos req) tieBreak))
         \<and> (evaluate_p002 cfg e cs req = Ok200 r \<longrightarrow>
            confidence r =
              confidence_spec (measScore_p001 GEN (PREFS GEN) m) hs
                (fst (faceBlock e cs (photos req))) (photos req) tieBreak)
         \<and> (fst (evaluate_p001 cfg1 e1 st req) = Ok200 r \<longrightarrow>
            confidence r =
              confidence_spec (measScore_p001 GEN (PREFS GEN) m) hs
                (fst (fst (faceBlock_p001 cfg1 e1 GEN (photos req) st))) (photos req) tieBreak1)
         \<and> (evaluate_old key e req = Ok200_old r0 \<longrightarrow>
            confidence_old r0 =
              max 0 (min 1
                (0.55 * measScore_old (PREFS_old GEN) m
                 + 0.35 * heightScoreFactory (height (PREFS_old GEN)) (height_cm req)
                 + 0.10 * 0.6
                 + max 0 (min 0.12 ((real (length (photos req)) - 2) * 0.04))
                 + tieBreak)))
         \<and> 0 \<le> tieBreak \<and> tieBreak \<le> 0.0099"
proof (intro conjI impI)
  assume a: "evaluate_p000 cfg e cs req = Ok200 r"
  obtain fs fc fr lg where fb: "faceBlock e cs (photos req) = (fs, fc, fr, lg)"
    by (cases "faceBlock e cs (photos req)")
  from a show "confidence r =
              (if LIGHT_MODE cfg then 0.75
               else confidence_spec (measScore_p000 GEN (PREFS GEN) m) hs
                      (fst (faceBlock e cs (photos req))) (photos req) tieBreak)"
    unfolding GEN_def m_def hs_def tieBreak_def
    by (auto simp add: evaluate_p000_def fb Let_def blend_spec tinyNoise_def split: if_splits)
next
  assume a: "evaluate_p002 cfg e cs req = Ok200 r"
  obtain fs fc fr lg where fb: "faceBlock e cs (photos req) = (fs, fc, fr, lg)"
    by (cases "faceBlock e cs (photos req)")
  from a show "confidence r =
              confidence_spec (measScore_p001 GEN (PREFS GEN) m) hs
                (fst (faceBlock e cs (photos req))) (photos req) tieBreak"
    unfolding GEN_def m_def hs_def tieBreak_def
    by (auto simp add: evaluate_p002_def fb Let_def blend_spec tinyNoise_def split: if_splits)
next
  assume a: "fst (evaluate_p001 cfg1 e1 st req) = Ok200 r"
  obtain fs fc fr st1 where fb:
    "faceBlock_p001 cfg1 e1 (resolveGEN (gender req)) (photos req) st = ((fs, fc, fr), st1)"
    by (cases "faceBlock_p001 cfg1 e1 (resolveGEN (gender req)) (photos req) st") auto
  from a show "confidence r =
              confidence_spec (measScore_p001 GEN (PREFS GEN) m) hs
                (fst (fst (faceBlock_p001 cfg1 e1 GEN (photos req) st))) (photos req) tieBreak1"
    unfolding GEN_def m_def hs_def tieBreak1_def
    by (auto simp add: evaluate_p001_def fb Let_def blend_spec tinyNoise_def split: if_splits)
next
  assume a: "evaluate_old key e req = Ok200_old r0"
  then have "photos req \<noteq> []"
    by (auto simp add: evaluate_old_def split: if_splits)
  with evaluate_old_blend [OF a]
  show "confidence_old r0 =
              max 0 (min 1
                (0.55 * measScore_old (PREFS_old GEN) m
                 + 0.35 * heightScoreFactory (height (PREFS_old GEN)) (height_cm req)
                 + 0.10 * 0.6
                 + max 0 (min 0.12 ((real (length (photos req)) - 2) * 0.04))
                 + tieBreak))"
    unfolding GEN_def m_def tieBreak_def by (simp add: tinyNoise_def)
next
  show "0 \<le> tieBreak"
    unfolding tieBreak_def by simp
  show "tieBreak \<le> 0.0099"
    unfolding tieBreak_def using tinyNoise_bounds [of e "photos req"] by (simp add: tinyNoise_def)
qed


theorem C1_confidence_blend_witness:
  "evaluate_p000 ex_config_heavy ex_env_empty [] ex_request =
     Ok200 \<lparr>decision = ''reject'', confidence = 0.1847,
            reason = ''no reference faces loaded (none)'',
            face_similarity = 0.5, face_cluster = ''none''\<rparr>
   \<and> \<not> LIGHT_MODE ex_config_heavy
   \<and> (0.1847 :: real) =
       confidence_spec
         (measScore_p000 (resolveGEN (gender ex_request)) (PREFS (resolveGEN (gender ex_request)))
            (parseMeas (measurements ex_request)))
         (heightScoreFactory (height (PREFS (resolveGEN (gender ex_request)))) (height_cm ex_request))
         (fst (faceBlock ex_env_empty [] (photos ex_request))) (photos ex_request)
         (real (sha256_hex6 ex_env_empty (join (photos ex_request) ''|'') mod 100) / 10000)
   \<and> evaluate_old ''secret'' ex_env_empty ex_request =
       Ok200_old \<lparr>decision_old = ''reject'', confidence_old = 0.0647,
                  reason_old = ''insufficient digitals''\<rparr>
   \<and> (0.0647 :: real) =
       max 0 (min 1
         (0.55 * measScore_old (PREFS_old (resolveGEN (gender ex_request)))
                   (parseMeas (measurements ex_request))
          + 0.35 * heightScoreFactory (height (PREFS_old (resolveGEN (gender ex_request))))
                     (height_cm ex_request)
          + 0.10 * 0.6
          + max 0 (min 0.12 ((real (length (photos ex_request)) - 2) * 0.04))
          + real (sha256_hex6 ex_env_empty (join (photos ex_request) ''|'') mod 100) / 10000))"
proof -
  have auth: "authorized (EVALUATOR_API_KEY ex_config_heavy) (authorization ex_request)"
    by (simp add: authorized_def ex_config_heavy_def ex_config_light_def ex_request_def
        startsWith_def)
  have heavy: "\<not> LIGHT_MODE ex_config_heavy"
    by (simp add: ex_config_heavy_def)
  have noise: "tinyNoise ex_env_empty (photos ex_request) = 47 / 10000"
    by (simp add: tinyNoise_def ex_env_empty_def ex_request_def ex_sha256_hex6_def)
  have fb: "faceBlock ex_env_empty [] (photos ex_request)
            = (0.5, ''none'', ''no reference faces loaded'', [])"
    by (simp add: faceBlock_def)
  have bl: "blend 0 0 (1 / 2) (Suc 0) (47 / 10000) = 1847 / 10000"
    by (simp add: blend_def photoBoost_def clamp01_def clamp_def)
  have dc: "decide (1847 / 10000) = ''reject''"
    by (simp add: decide_def)
  have tf: "toFixed3 (1 / 2) = 1 / 2"
    by (simp add: toFixed3_def)
  have run: "evaluate_p000 ex_config_heavy ex_env_empty [] ex_request =
     Ok200 \<lparr>decision = ''reject'', confidence = 0.1847,
            reason = ''no reference faces loaded (none)'',
            face_similarity = 0.5, face_cluster = ''none''\<rparr>"
    by (simp add: evaluate_p000_def auth heavy ex_request_facts Let_def fb measScore_p000_None
        heightScore_NoHeight noise bl dc heightReasons_NoHeight measReasons_None tf)
  let ?r = "\<lparr>decision = ''reject'', confidence = 0.1847,
             reason = ''no reference faces loaded (none)'',
             face_similarity = 0.5, face_cluster = ''none''\<rparr>"
  let ?old = "\<lparr>decision_old = ''reject'', confidence_old = 0.0647,
              reason_old = ''insufficient digitals''\<rparr>"
  note inst = C1_confidence_blend [where cfg = ex_config_heavy and e = ex_env_empty
      and cs = "[]" and req = ex_request and r = ?r and key = "''secret''" and ?r0.0 = ?old]
  from conjunct1 [OF inst] run heavy
  have "confidence ?r =
       confidence_spec
         (measScore_p000 (resolveGEN (gender ex_request)) (PREFS (resolveGEN (gender ex_request)))
            (parseMeas (measurements ex_request)))
         (heightScoreFactory (height (PREFS (resolveGEN (gender ex_request)))) (height_cm ex_request))
         (fst (faceBlock ex_env_empty [] (photos ex_request))) (photos ex_request)
         (real (sha256_hex6 ex_env_empty (join (photos ex_request) ''|'') mod 100) / 10000)"
    by (simp only: if_False simp_thms)
  then have "(0.1847 :: real) =
       confidence_spec
         (measScore_p000 (resolveGEN (gender ex_request)) (PREFS (resolveGEN (gender ex_request)))
            (parseMeas (measurements ex_request)))
         (heightScoreFactory (height (PREFS (resolveGEN (gender ex_request)))) (height_cm ex_request))
         (fst (faceBlock ex_env_empty [] (photos ex_request))) (photos ex_request)
         (real (sha256_hex6 ex_env_empty (join (photos ex_request) ''|'') mod 100) / 10000)"
    by (simp only: result.simps)
  note blend_new = this
  have auth_old: "authorized ''secret'' (authorization ex_request)"
    by (simp add: authorized_def ex_request_def startsWith_def)
  have ms: "measScore_old P None = 0" for P
    by (simp add: measScore_old_def)
  have bl_old: "blend_old 0 0 (Suc 0) (47 / 10000) = 647 / 10000"
    by (simp add: blend_old_def photoBoost_def clamp01_def clamp_def)
  have dc_old: "decide (647 / 10000) = ''reject''"
    by (simp add: decide_def)
  have mr: "measReasons_old None x = []" for x
    by (simp add: measReasons_old_def)
  have run_old: "evaluate_old ''secret'' ex_env_empty ex_request = Ok200_old ?old"
    by (simp add: evaluate_old_def auth_old ex_request_facts Let_def ms heightScore_NoHeight noise
        bl_old dc_old heightReasons_NoHeight mr)
  from conjunct1 [OF conjunct2 [OF conjunct2 [OF conjunct2 [OF inst]]]] run_old
  have "confidence_old ?old =
       max 0 (min 1
         (0.55 * measScore_old (PREFS_old (resolveGEN (gender ex_request)))
                   (parseMeas (measurements ex_request))
          + 0.35 * heightScoreFactory (height (PREFS_old (resolveGEN (gender ex_request))))
                     (height_cm ex_request)
          + 0.10 * 0.6
          + max 0 (min 0.12 ((real (length (photos ex_request)) - 2) * 0.04))
          + real (sha256_hex6 ex_env_empty (join (photos ex_request) ''|'') mod 100) / 10000))"
    by (simp only: simp_thms)
  then have blend_old: "(0.0647 :: real) =
       max 0 (min 1
         (0.55 * measScore_old (PREFS_old (resolveGEN (gender ex_request)))
                   (parseMeas (measurements ex_request))
          + 0.35 * heightScoreFactory (height (PREFS_old (resolveGEN (gender ex_request))))
                     (height_cm ex_request)
          + 0.10 * 0.6
          + max 0 (min 0.12 ((real (length (photos ex_request)) - 2) * 0.04))
          + real (sha256_hex6 ex_env_empty (join (photos ex_request) ''|'') mod 100) / 10000))"
    by (simp only: result_old.simps)
  from run heavy blend_new run_old blend_old show ?thesis
    by (intro conjI)
qed

subsection \<open>The cache builder\<close>

lemma embedded_simps:
  "embedded e [] = []"
  "embedOne e u = Inl msg \<Longrightarrow> embedded e (u # us) = embedded e us"
  "embedOne e u = Inr v \<Longrightarrow> embedded e (u # us) = v # embedded e us"
  by (simp_all add: embedded_def)

lemma failures_simps:
  "failures e fname [] = []"
  "embedOne e u = Inl msg \<Longrightarrow> failures e fname (u # us) = EmbedFail fname u msg # failures e fname us"
  "embedOne e u = Inr v \<Longrightarrow> failures e fname (u # us) = failures e fname us"
  by (simp_all add: failures_def)

lemma foldEmbedding_simps:
  "embedOne e u = Inl msg \<Longrightarrow>
     foldEmbedding e fname u (c, n, lg) = (c, n, lg @ [EmbedFail fname u msg])"
  "embedOne e u = Inr v \<Longrightarrow>
     foldEmbedding e fname u (c, n, lg) = (foldIn c v, n + 1, lg)"
  by (simp_all add: foldEmbedding_def foldIn_def Let_def)

lemma fold_foldEmbedding:
  "fold (foldEmbedding e fname) urls (c0, n0, lg0) =
     (foldl foldIn c0 (embedded e urls), n0 + length (embedded e urls), lg0 @ failures e fname urls)"
proof (induction urls arbitrary: c0 n0 lg0)
  case Nil
  show ?case by (simp add: embedded_simps failures_simps)
next
  case (Cons u us)
  show ?case
  proof (cases "embedOne e u")
    case (Inl msg)
    then show ?thesis
      by (simp add: Cons.IH foldEmbedding_simps embedded_simps failures_simps)
  next
    case (Inr v)
    then show ?thesis
      by (simp add: Cons.IH foldEmbedding_simps embedded_simps failures_simps)
  qed
qed

lemma addInto_nth:
  assumes "length c = d" and "length v = d"
  shows "addInto c v = map (\<lambda>i. c ! i + v ! i) [0..<d]"
  using assms by (auto simp add: addInto_def intro!: nth_equalityI)

lemma foldl_foldIn_Some:
  assumes "length c = d" and "list_all (\<lambda>v. length v = d) vs"
  shows "foldl foldIn (Some c) vs = Some (map (\<lambda>i. c ! i + sum_list (map (\<lambda>v. v ! i) vs)) [0..<d])"
  using assms
proof (induction vs arbitrary: c)
  case Nil
  then show ?case by (auto intro!: nth_equalityI)
next
  case (Cons v vs)
  then have lv: "length v = d" and rest: "list_all (\<lambda>v. length v = d) vs"
    by simp_all
  have step: "foldIn (Some c) v = Some (map (\<lambda>i. c ! i + v ! i) [0..<d])"
    using Cons.prems(1) lv by (simp add: foldIn_def addInto_nth)
  have "foldl foldIn (Some (map (\<lambda>i. c ! i + v ! i) [0..<d])) vs
        = Some (map (\<lambda>i. (map (\<lambda>i. c ! i + v ! i) [0..<d]) ! i + sum_list (map (\<lambda>v. v ! i) vs)) [0..<d])"
    by (rule Cons.IH) (simp_all add: rest)
  also have "\<dots> = Some (map (\<lambda>i. c ! i + sum_list (map (\<lambda>v. v ! i) (v # vs))) [0..<d])"
    by (auto intro!: nth_equalityI)
  finally show ?case
    using step by simp
qed

lemma foldl_foldIn_None:
  assumes "vs \<noteq> []" and "list_all (\<lambda>v. length v = d) vs"
  shows "foldl foldIn None vs = Some (vectorSum vs)"
proof -
  from assms obtain v ws where vs: "vs = v # ws" and lv: "length v = d"
    and rest: "list_all (\<lambda>v. length v = d) ws"
    by (cases vs) auto
  have first: "foldIn None v = Some (map (\<lambda>i. v ! i) [0..<d])"
    using lv by (simp add: foldIn_def addInto_nth)
  have "foldl foldIn (Some (map (\<lambda>i. v ! i) [0..<d])) ws
        = Some (map (\<lambda>i. (map (\<lambda>i. v ! i) [0..<d]) ! i + sum_list (map (\<lambda>v. v ! i) ws)) [0..<d])"
    by (rule foldl_foldIn_Some) (simp_all add: rest)
  also have "\<dots> = Some (vectorSum vs)"
    using lv by (auto simp add: vectorSum_def vs intro!: nth_equalityI)
  finally show ?thesis
    using first by (simp add: vs)
qed

lemma embedded_lengths:
  assumes "fixedLength e d"
  shows "list_all (\<lambda>v. length v = d) (embedded e urls)"
proof (induction urls)
  case Nil
  show ?case by (simp add: embedded_simps)
next
  case (Cons u us)
  show ?case
  proof (cases "embedOne e u")
    case (Inl msg)
    with Cons show ?thesis by (simp add: embedded_simps)
  next
    case (Inr v)
    with assms have "length v = d" by (simp add: fixedLength_def)
    with Cons Inr show ?thesis by (simp add: embedded_simps)
  qed
qed


lemma foldl_foldIn_nonempty:
  "vs \<noteq> [] \<Longrightarrow> foldl foldIn c vs \<noteq> None"
proof (induction vs arbitrary: c)
  case Nil
  then show ?case by simp
next
  case (Cons v vs)
  show ?case
  proof (cases "vs = []")
    case True
    then show ?thesis by (simp add: foldIn_def)
  next
    case False
    with Cons.IH [of "foldIn c v"] show ?thesis by simp
  qed
qed

lemma mset_embedded:
  "mset (embedded e urls) =
     image_mset (\<lambda>u. case embedOne e u of Inr v \<Rightarrow> v | Inl msg \<Rightarrow> [])
       (filter_mset (\<lambda>u. \<not> isl (embedOne e u)) (mset urls))"
proof (induction urls)
  case Nil
  show ?case by (simp add: embedded_simps)
next
  case (Cons u us)
  then show ?case
    by (cases "embedOne e u") (simp_all add: embedded_simps)
qed

lemma vectorSum_mset:
  assumes "vs \<noteq> []" and "list_all (\<lambda>v. length v = d) vs"
  shows "vectorSum vs = map (\<lambda>i. sum_mset (image_mset (\<lambda>v. v ! i) (mset vs))) [0..<d]"
proof -
  from assms have "length (hd vs) = d"
    by (cases vs) simp_all
  moreover have "sum_list (map (\<lambda>v. v ! i) vs) = sum_mset (image_mset (\<lambda>v. v ! i) (mset vs))" for i
    by (metis mset_map sum_mset_sum_list)
  ultimately show ?thesis
    by (simp add: vectorSum_def)
qed

text \<open>
  The order in which the workers fold the embeddings in does not matter: any order of
  the queue gives the same cnt and the same running sum.
\<close>

lemma worker_order_irrelevant:
  assumes "mset urls' = mset urls" and "fixedLength e d"
  shows "length (embedded e urls') = length (embedded e urls)
         \<and> foldl foldIn None (embedded e urls') = foldl foldIn None (embedded e urls)"
proof -
  have ms: "mset (embedded e urls') = mset (embedded e urls)"
    by (simp add: mset_embedded assms(1))
  then have len: "length (embedded e urls') = length (embedded e urls)"
    by (metis size_mset)
  show ?thesis
  proof (cases "embedded e urls = []")
    case True
    with len show ?thesis by simp
  next
    case False
    with len have ne: "embedded e urls' \<noteq> []" by auto
    have "vectorSum (embedded e urls') = vectorSum (embedded e urls)"
      using vectorSum_mset [OF ne embedded_lengths [OF assms(2)]]
        vectorSum_mset [OF False embedded_lengths [OF assms(2)]] ms by simp
    then show ?thesis
      using len foldl_foldIn_None [OF ne embedded_lengths [OF assms(2)]]
        foldl_foldIn_None [OF False embedded_lengths [OF assms(2)]] by simp
  qed
qed


lemma mset_removeAt:
  assumes "i < length xs"
  shows "add_mset (xs ! i) (mset (removeAt i xs)) = mset xs"
proof -
  have "mset xs = mset (take i xs @ xs ! i # drop (Suc i) xs)"
    using assms by (simp only: id_take_nth_drop [symmetric])
  then show ?thesis
    by (simp add: removeAt_def)
qed

text \<open>
  Every URL of the queue is taken once and folded in once, whatever the order in which the
  embeddings complete.
\<close>

lemma mset_completionOrder:
  "(busy = [] \<longrightarrow> queue = []) \<Longrightarrow>
     mset (completionOrder pick busy queue) = mset busy + mset queue"
proof (induction pick busy queue rule: completionOrder.induct)
  case (1 pick busy queue)
  show ?case
  proof (cases "busy = []")
    case True
    with "1.prems" show ?thesis
      by (subst completionOrder.simps) simp
  next
    case False
    let ?i = "pick busy mod length busy"
    have i: "?i < length busy"
      using False by simp
    have next_ok: "removeAt ?i busy @ take 1 queue = [] \<longrightarrow> drop 1 queue = []"
      by (cases queue) simp_all
    have "mset (completionOrder pick busy queue)
          = add_mset (busy ! ?i)
              (mset (completionOrder pick (removeAt ?i busy @ take 1 queue) (drop 1 queue)))"
      using False by (subst completionOrder.simps) simp
    also have "\<dots> = add_mset (busy ! ?i)
                        (mset (removeAt ?i busy @ take 1 queue) + mset (drop 1 queue))"
      using "1.IH" [OF False next_ok] by simp
    also have "\<dots> = add_mset (busy ! ?i) (mset (removeAt ?i busy))
                      + (mset (take 1 queue) + mset (drop 1 queue))"
      by simp
    also have "\<dots> = mset busy + mset queue"
      unfolding mset_removeAt [OF i] by (cases queue) simp_all
    finally show ?thesis .
  qed
qed

text \<open>When the embedding in flight the longest always completes first, the order is that of the queue.\<close>

lemma completionOrder_fifo:
  "(busy = [] \<longrightarrow> queue = []) \<Longrightarrow>
     completionOrder (\<lambda>urls. 0) busy queue = busy @ queue"
proof (induction "\<lambda>urls :: string list. 0 :: nat" busy queue rule: completionOrder.induct)
  case (1 busy queue)
  show ?case
  proof (cases busy)
    case Nil
    with "1.prems" show ?thesis
      by (subst completionOrder.simps) simp
  next
    case (Cons u us)
    have next_ok: "removeAt (0 mod length busy) busy @ take 1 queue = [] \<longrightarrow> drop 1 queue = []"
      by (cases queue) simp_all
    have ne: "busy \<noteq> []"
      using Cons by simp
    have "completionOrder (\<lambda>urls. 0) busy queue
          = u # completionOrder (\<lambda>urls. 0) (us @ take 1 queue) (drop 1 queue)"
      using Cons by (subst completionOrder.simps) (simp add: removeAt_def)
    also have "\<dots> = u # (us @ take 1 queue) @ drop 1 queue"
      using "1.hyps" [OF ne next_ok] Cons by (simp add: removeAt_def)
    finally show ?thesis
      using Cons by simp
  qed
qed

lemma workers_started:
  assumes "1 \<le> m"
  shows "take (nat (min m (int (length urls)))) urls = [] \<longrightarrow> drop (nat (min m (int (length urls)))) urls = []"
  using assms by (cases urls) (simp_all add: min_def)

lemma workers_all:
  "mset (take n urls) + mset (drop n urls) = mset urls"
  by (metis append_take_drop_id mset_append)

lemma completed_mset:
  assumes "1 \<le> MAX_EMBEDS_CONCURRENCY cfg"
  shows "mset (completed cfg e f) = mset (sampled cfg e f)"
  unfolding completed_def Let_def
  using mset_completionOrder [OF workers_started [OF assms]] by (simp add: workers_all)

lemma length_embedded_mset:
  "mset urls' = mset urls \<Longrightarrow> length (embedded e urls') = length (embedded e urls)"
  by (metis mset_embedded size_mset)


lemma runWorkers_enough:
  assumes "1 \<le> MAX_EMBEDS_CONCURRENCY cfg"
  shows "runWorkers cfg e fname urls lg =
           (let order = completionOrder (firstDone e)
                          (take (nat (min (MAX_EMBEDS_CONCURRENCY cfg) (int (length urls)))) urls)
                          (drop (nat (min (MAX_EMBEDS_CONCURRENCY cfg) (int (length urls)))) urls)
            in Inr (foldl foldIn None (embedded e order), length (embedded e order),
                    lg @ failures e fname order))"
proof (cases "urls = []")
  case True
  have "completionOrder (firstDone e) [] [] = []"
    by (subst completionOrder.simps) simp
  with True assms show ?thesis
    by (simp add: runWorkers_def embedded_simps failures_simps Let_def min_def)
next
  case False
  then have "0 < length urls" by simp
  with assms have "\<not> min (MAX_EMBEDS_CONCURRENCY cfg) (int (length urls)) < 0"
    "min (MAX_EMBEDS_CONCURRENCY cfg) (int (length urls)) \<noteq> 0"
    by (simp_all add: min_def)
  then show ?thesis
    by (simp add: runWorkers_def Let_def fold_foldEmbedding)
qed

lemma runWorkers_result:
  assumes "runWorkers cfg e fname urls lg = Inr (centroid, cnt, lg')"
  shows "(cnt = 0 \<and> lg' = lg \<and> MAX_EMBEDS_CONCURRENCY cfg = 0 \<and> urls \<noteq> [])
         \<or> (\<exists>order. mset order = mset urls
                \<and> centroid = foldl foldIn None (embedded e order)
                \<and> cnt = length (embedded e order)
                \<and> lg' = lg @ failures e fname order)"
proof (cases "1 \<le> MAX_EMBEDS_CONCURRENCY cfg")
  case True
  let ?n = "nat (min (MAX_EMBEDS_CONCURRENCY cfg) (int (length urls)))"
  let ?order = "completionOrder (firstDone e) (take ?n urls) (drop ?n urls)"
  have "mset ?order = mset urls"
    using mset_completionOrder [OF workers_started [OF True]] by (simp add: workers_all)
  moreover from assms runWorkers_enough [OF True, of e fname urls lg]
  have "centroid = foldl foldIn None (embedded e ?order)" "cnt = length (embedded e ?order)"
    "lg' = lg @ failures e fname ?order"
    by (simp_all add: Let_def)
  ultimately show ?thesis by blast
next
  case False
  show ?thesis
  proof (cases "urls = []")
    case True
    with assms False have "centroid = None" "cnt = 0" "lg' = lg"
      by (auto simp add: runWorkers_def Let_def min_def split: if_splits)
    then have "mset [] = mset urls \<and> centroid = foldl foldIn None (embedded e [])
        \<and> cnt = length (embedded e []) \<and> lg' = lg @ failures e fname []"
      using True by (simp add: embedded_simps failures_simps)
    then show ?thesis by blast
  next
    case ne: False
    with False have "min (MAX_EMBEDS_CONCURRENCY cfg) (int (length urls)) \<le> 0"
      by (simp add: min_def)
    with assms have "min (MAX_EMBEDS_CONCURRENCY cfg) (int (length urls)) = 0"
      by (cases "min (MAX_EMBEDS_CONCURRENCY cfg) (int (length urls)) < 0")
         (simp_all add: runWorkers_def Let_def)
    with assms ne have "cnt = 0" "lg' = lg" "MAX_EMBEDS_CONCURRENCY cfg = 0"
      by (simp_all add: runWorkers_def Let_def min_def split: if_splits)
    with ne show ?thesis by simp
  qed
qed

lemma sampled_listing:
  "searchFolderAssets e fname = Inr urlsAll \<Longrightarrow>
     sampled cfg e fname = slice0 urlsAll (MAX_REFS_PER_FOLDER cfg)"
  by (simp add: sampled_def)

lemma slice0_Nil: "slice0 [] n = []"
  by (simp add: slice0_def)

text \<open>One folder, any configuration: the group it adds, if any, is well formed.\<close>

lemma loadFolder_adds:
  assumes "loadFolder cfg e fname (out, lg) = (Inr out', lg')" and "fixedLength e d"
  shows "out' = out \<or> (\<exists>c. out' = out @ [c] \<and> c_label c = fname \<and> wellFormed cfg e c
                            \<and> length (c_centroid c) = d)"
proof (cases "searchFolderAssets e fname")
  case (Inl msg)
  with assms(1) show ?thesis by (simp add: loadFolder_def)
next
  case (Inr urlsAll)
  note listing = this
  show ?thesis
  proof (cases "urlsAll = []")
    case True
    with assms(1) listing show ?thesis by (simp add: loadFolder_def)
  next
    case False
    let ?urls = "slice0 urlsAll (MAX_REFS_PER_FOLDER cfg)"
    show ?thesis
    proof (cases "runWorkers cfg e fname ?urls lg")
      case (Inl err)
      with assms(1) listing False show ?thesis by (simp add: loadFolder_def Let_def)
    next
      case (Inr res)
      obtain centroid cnt lg1 where res: "res = (centroid, cnt, lg1)"
        by (cases res)
      note rw = Inr [unfolded res]
      show ?thesis
      proof (cases "cnt > 0")
        case False
        with assms(1) listing \<open>urlsAll \<noteq> []\<close> rw show ?thesis
          by (simp add: loadFolder_def Let_def)
      next
        case True
        let ?vs = "embedded e ?urls"
        from runWorkers_result [OF rw] True
        obtain order where order: "mset order = mset ?urls"
          and c': "centroid = foldl foldIn None (embedded e order)"
          and n': "cnt = length (embedded e order)"
          by auto
        from worker_order_irrelevant [OF order assms(2)] c' n'
        have c: "centroid = foldl foldIn None ?vs" and n: "cnt = length ?vs"
          by simp_all
        from True n have ne: "?vs \<noteq> []" by auto
        have len: "list_all (\<lambda>v. length v = d) ?vs"
          using assms(2) by (rule embedded_lengths)
        have sum: "centroid = Some (vectorSum ?vs)"
          using c foldl_foldIn_None [OF ne len] by simp
        have d: "length (vectorSum ?vs) = d"
          using ne len by (cases ?vs) (simp_all add: vectorSum_def)
        let ?c = "\<lparr>c_label = fname, c_gender = inferGenderFromFolder fname, c_size = cnt,
                   c_centroid = map (\<lambda>x. x / real cnt) (the centroid)\<rparr>"
        from assms(1) listing \<open>urlsAll \<noteq> []\<close> rw True have o: "out' = out @ [?c]"
          by (simp add: loadFolder_def Let_def)
        have "1 \<le> length ?vs"
          using ne by (cases ?vs) simp_all
        then have "wellFormed cfg e ?c"
          using n sum by (simp add: wellFormed_def sampled_listing [OF listing] centroidOf_def Let_def)
        moreover have "length (c_centroid ?c) = d"
          using sum d by simp
        ultimately show ?thesis
          using o by (intro disjI2 exI [of _ ?c]) simp
      qed
    qed
  qed
qed

lemma loadFolders_invariant:
  assumes "loadFolders cfg e fs (out, lg) = (Inr out', lg')" and "fixedLength e d"
    and "list_all (\<lambda>c. wellFormed cfg e c \<and> length (c_centroid c) = d) out"
  shows "list_all (\<lambda>c. wellFormed cfg e c \<and> length (c_centroid c) = d) out'"
  using assms(1,3)
proof (induction fs arbitrary: out lg)
  case Nil
  then show ?case by simp
next
  case (Cons f fs)
  obtain r lg1 where lf: "loadFolder cfg e f (out, lg) = (r, lg1)"
    by (cases "loadFolder cfg e f (out, lg)")
  show ?case
  proof (cases r)
    case (Inl err)
    with Cons.prems(1) lf show ?thesis by simp
  next
    case (Inr out1)
    with Cons.prems(1) lf have rest: "loadFolders cfg e fs (out1, lg1) = (Inr out', lg')"
      by simp
    from loadFolder_adds [OF lf [unfolded Inr] assms(2)] Cons.prems(2)
    have "list_all (\<lambda>c. wellFormed cfg e c \<and> length (c_centroid c) = d) out1"
      by auto
    with Cons.IH [OF rest] show ?thesis .
  qed
qed


lemma loadFolders_p001_nonempty:
  assumes "loadFolders_p001 cfg e fs out st = (Inr out', st')"
    and "list_all (\<lambda>g. 1 \<le> length (r_vecs g)) out"
  shows "list_all (\<lambda>g. 1 \<le> length (r_vecs g)) out'"
  using assms
proof (induction fs arbitrary: out st)
  case Nil
  then show ?case by simp
next
  case (Cons f fs)
  show ?case
  proof (cases "searchFolderAssets e f")
    case (Inl msg)
    with Cons.prems(1) show ?thesis by simp
  next
    case (Inr urls)
    show ?thesis
    proof (cases "urls = []")
      case True
      with Cons.prems Inr Cons.IH [of out st] show ?thesis by simp
    next
      case False
      obtain vecs st1 where ea: "embedAll cfg e f urls [] st = (vecs, st1)"
        by (cases "embedAll cfg e f urls [] st")
      let ?out1 = "if vecs \<noteq> []
                  then out @ [\<lparr>r_label = f, r_gender = inferGenderFromFolder f,
                               r_urls = urls, r_vecs = vecs\<rparr>]
                  else out"
      from Cons.prems(1) Inr False ea
      have rest: "loadFolders_p001 cfg e fs ?out1 st1 = (Inr out', st')"
        by simp
      have "list_all (\<lambda>g. 1 \<le> length (r_vecs g)) ?out1"
        using Cons.prems(2) by (cases vecs) simp_all
      with Cons.IH [OF rest] show ?thesis .
    qed
  qed
qed

text \<open>
  C7: after a build that completes, every group of the published cache is well formed:
  its sample count is the number of sampled images of its folder that embedded, that
  number is at least one (a folder with no embedded image adds no group), and its centroid
  is the vector sum of their embeddings divided by that number. The embedding is taken to
  return vectors of one length \<open>d\<close>, as the data model of the specification has it. In
  \<^verbatim>\<open>part_001\<close>, which keeps the vectors and no centroid, every group holds at least one
  vector.
\<close>

theorem C7_cached_groups_well_formed:
  assumes "fixedLength e d"
  shows "(loadClusters cfg e st = (None, st') \<longrightarrow>
            list_all (\<lambda>c. wellFormed cfg e c \<and> length (c_centroid c) = d) (clusters st'))
         \<and> (loadClusters_p001 cfg1 e1 st1 = (None, st1') \<longrightarrow>
            list_all (\<lambda>g. 1 \<le> length (r_vecs g)) (groups st1'))"
proof (intro conjI impI)
  assume run: "loadClusters cfg e st = (None, st')"
  show "list_all (\<lambda>c. wellFormed cfg e c \<and> length (c_centroid c) = d) (clusters st')"
  proof (cases "discoverReferenceFolders cfg e")
    case (Inl err)
    with run show ?thesis by (simp add: loadClusters_def split: if_splits)
  next
    case (Inr fs)
    obtain r lg where lf: "loadFolders cfg e fs ([], logged st) = (r, lg)"
      by (cases "loadFolders cfg e fs ([], logged st)")
    show ?thesis
    proof (cases r)
      case (Inl err)
      with run Inr lf show ?thesis by (simp add: loadClusters_def split: if_splits)
    next
      case (Inr out)
      with run \<open>discoverReferenceFolders cfg e = Inr fs\<close> lf have "clusters st' = out"
        by (auto simp add: loadClusters_def split: if_splits)
      moreover from loadFolders_invariant [OF lf [unfolded Inr] assms]
      have "list_all (\<lambda>c. wellFormed cfg e c \<and> length (c_centroid c) = d) out"
        by simp
      ultimately show ?thesis by simp
    qed
  qed
next
  assume run: "loadClusters_p001 cfg1 e1 st1 = (None, st1')"
  show "list_all (\<lambda>g. 1 \<le> length (r_vecs g)) (groups st1')"
  proof (cases "discoverReferenceFolders cfg1 e1")
    case (Inl err)
    with run show ?thesis by (simp add: loadClusters_p001_def split: if_splits)
  next
    case (Inr fs)
    obtain r st2 where lf: "loadFolders_p001 cfg1 e1 fs [] st1 = (r, st2)"
      by (cases "loadFolders_p001 cfg1 e1 fs [] st1")
    show ?thesis
    proof (cases r)
      case (Inl err)
      with run Inr lf show ?thesis by (simp add: loadClusters_p001_def split: if_splits)
    next
      case (Inr out)
      with run \<open>discoverReferenceFolders cfg1 e1 = Inr fs\<close> lf have "groups st1' = out"
        by (auto simp add: loadClusters_p001_def split: if_splits)
      moreover from loadFolders_p001_nonempty [OF lf [unfolded Inr]]
      have "list_all (\<lambda>g. 1 \<le> length (r_vecs g)) out"
        by simp
      ultimately show ?thesis by simp
    qed
  qed
qed

lemma loadFolder_listing_ok:
  assumes "1 \<le> MAX_EMBEDS_CONCURRENCY cfg" and "\<not> isl (searchFolderAssets e f)"
  shows "\<exists>out1. loadFolder cfg e f (out, lg) = (Inr out1, lg @ failures e f (completed cfg e f))
               \<and> summary out1 = summary out @ List.map_filter (contribution cfg e) [f]"
proof -
  from assms(2) obtain urlsAll where listing: "searchFolderAssets e f = Inr urlsAll"
    by (cases "searchFolderAssets e f") auto
  let ?urls = "slice0 urlsAll (MAX_REFS_PER_FOLDER cfg)"
  have s: "sampled cfg e f = ?urls"
    using listing by (rule sampled_listing)
  have n: "length (embedded e (completed cfg e f)) = length (embedded e ?urls)"
    using length_embedded_mset [OF completed_mset [OF assms(1)]] by (simp add: s)
  show ?thesis
  proof (cases "urlsAll = []")
    case True
    have "completionOrder (firstDone e) [] [] = []"
      by (subst completionOrder.simps) simp
    then have "completed cfg e f = []"
      using True by (simp add: completed_def s slice0_Nil)
    then show ?thesis
      using listing True
      by (simp add: loadFolder_def s slice0_Nil failures_simps embedded_simps contribution_def)
  next
    case False
    have rw: "runWorkers cfg e f ?urls lg =
                Inr (foldl foldIn None (embedded e (completed cfg e f)),
                     length (embedded e (completed cfg e f)),
                     lg @ failures e f (completed cfg e f))"
      using runWorkers_enough [OF assms(1), of e f ?urls lg]
      by (simp add: completed_def s Let_def)
    show ?thesis
    proof (cases "embedded e ?urls = []")
      case True
      then show ?thesis
        using listing False rw n
        by (simp add: loadFolder_def Let_def s contribution_def)
    next
      case ne: False
      then have "0 < length (embedded e ?urls)" by simp
      then show ?thesis
        using listing False rw n
        by (simp add: loadFolder_def Let_def s contribution_def summary_def)
    qed
  qed
qed


lemma loadFolders_listing_fails:
  assumes "1 \<le> MAX_EMBEDS_CONCURRENCY cfg"
    and "\<not> list_all (\<lambda>f. \<not> isl (searchFolderAssets e f)) fs"
  shows "\<exists>msg lg'. loadFolders cfg e fs (out, lg) = (Inl (SearchFailed msg), lg')"
  using assms(2)
proof (induction fs arbitrary: out lg)
  case Nil
  then show ?case by simp
next
  case (Cons f fs)
  show ?case
  proof (cases "isl (searchFolderAssets e f)")
    case True
    then obtain msg where "searchFolderAssets e f = Inl msg"
      by (cases "searchFolderAssets e f") auto
    then show ?thesis
      by (simp add: loadFolder_def)
  next
    case False
    with Cons.prems have fs: "\<not> list_all (\<lambda>f. \<not> isl (searchFolderAssets e f)) fs"
      by simp
    from loadFolder_listing_ok [OF assms(1) False, of out lg]
    obtain out1 where "loadFolder cfg e f (out, lg) = (Inr out1, lg @ failures e f (completed cfg e f))"
      by blast
    with Cons.IH [OF fs, of out1 "lg @ failures e f (completed cfg e f)"] show ?thesis
      by simp
  qed
qed

lemma ex_config_folders_facts:
  "CLOUDINARY_CLOUD_NAME ex_config_folders \<noteq> [] \<and> CLOUDINARY_API_KEY ex_config_folders \<noteq> []
   \<and> CLOUDINARY_API_SECRET ex_config_folders \<noteq> []"
  "MAX_EMBEDS_CONCURRENCY ex_config_folders = 2"
  "MAX_REFS_PER_FOLDER ex_config_folders = 40"
  "discoverReferenceFolders ex_config_folders e = Inr [''Reference Female A'', ''Reference Male B'']"
  by (simp_all add: ex_config_folders_def ex_config_heavy_def ex_config_light_def
      discoverReferenceFolders_def)

lemma ex_inferGender_female_a: "inferGenderFromFolder ''Reference Female A'' = ''female''"
  by (simp add: inferGenderFromFolder_def toLowerCase_def toLowerChar_def Let_def)

lemma ex_loadFolder_one_image_fails:
  "loadFolder ex_config_folders ex_env_one_image_fails ''Reference Female A'' ([], []) =
     (Inr [\<lparr>c_label = ''Reference Female A'', c_gender = ''female'', c_size = 1,
            c_centroid = [0.6, 0.8]\<rparr>],
      [EmbedFail ''Reference Female A'' ''https://res.example.com/ref/a2.jpg''
         ''image_fetch_failed:404''])"
  by (simp add: loadFolder_def ex_env_one_image_fails_def slice0_def ex_config_folders_facts
      runWorkers_def completionOrder_fifo foldEmbedding_def addInto_def ex_inferGender_female_a
      Let_def)

lemma ex_loadFolder_empty_folder:
  "loadFolder ex_config_folders ex_env_one_image_fails ''Reference Male B'' acc = (Inr (fst acc), snd acc)"
  by (cases acc) (simp add: loadFolder_def ex_env_one_image_fails_def)

lemma ex_loadClusters_one_image_fails:
  "loadClusters ex_config_folders ex_env_one_image_fails ex_state0 =
     (None,
      \<lparr>clusters = [\<lparr>c_label = ''Reference Female A'', c_gender = ''female'', c_size = 1,
                     c_centroid = [0.6, 0.8]\<rparr>],
       logged = [EmbedFail ''Reference Female A'' ''https://res.example.com/ref/a2.jpg''
                   ''image_fetch_failed:404'',
                 Loaded [(''Reference Female A'', 1)]]\<rparr>)"
  by (simp add: loadClusters_def ex_config_folders_facts ex_state0_def
      ex_loadFolder_one_image_fails ex_loadFolder_empty_folder)






text \<open>
  The builder of \<^verbatim>\<open>part_001\<close>: a call for an embedding leaves the groups alone and writes
  no \<^verbatim>\<open>embed_fail\<close> entry itself; the loop over the images of a folder ends with one vector
  or one \<^verbatim>\<open>embed_fail\<close> entry for every image.
\<close>

lemma tryEmbedFrom_keeps:
  "tryEmbedFrom e route buf attempt lastE st = (res, st') \<Longrightarrow>
     groups st' = groups st \<and> logged_hf st' = logged_hf st \<and> embedCache st' = embedCache st"
proof (induction e route buf attempt lastE st arbitrary: res st' rule: tryEmbedFrom.induct)
  case (1 e route buf attempt lastE st)
  show ?case
  proof (cases "attempt \<le> maxAttempts")
    case False
    with "1.prems" show ?thesis
      by (subst (asm) tryEmbedFrom.simps) simp
  next
    case True
    show ?thesis
    proof (cases "hfFetch e (requests st) route buf")
      case (RespOk d)
      with "1.prems" True show ?thesis
        by (subst (asm) tryEmbedFrom.simps) (auto simp add: Let_def split: sum.splits)
    next
      case (RespThrows msg)
      with "1.prems" True show ?thesis
        by (subst (asm) tryEmbedFrom.simps) (auto simp add: Let_def)
    next
      case (RespStatus s t)
      show ?thesis
      proof (cases "retryable s \<and> attempt < maxAttempts")
        case False
        with "1.prems" True RespStatus show ?thesis
          by (subst (asm) tryEmbedFrom.simps) (auto simp add: Let_def)
      next
        case again: True
        let ?st1 = "st\<lparr>requests := requests st + 1\<rparr>"
        let ?err = "HfStatus s route (if t = [] then ''error'' else t)"
        from "1.prems" True RespStatus again
        have "tryEmbedFrom e route buf (attempt + 1) (Some ?err)
                (?st1\<lparr>sleeps := sleeps ?st1 @ [400 * attempt]\<rparr>) = (res, st')"
          by (subst (asm) tryEmbedFrom.simps) (simp add: Let_def)
        from "1.IH" [OF True refl RespStatus refl again this] show ?thesis
          by simp
      qed
    qed
  qed
qed

lemma tryBackends_keeps:
  "tryBackends e url buf bs lastErr st = (res, st') \<Longrightarrow>
     groups st' = groups st \<and> embedFailsHf (logged_hf st') = embedFailsHf (logged_hf st)"
proof (induction bs arbitrary: lastErr st)
  case Nil
  then show ?case by auto
next
  case (Cons b bs)
  obtain model route where b: "b = (model, route)"
    by (cases b)
  obtain r st1 where t: "tryEmbed e route buf st = (r, st1)"
    by (cases "tryEmbed e route buf st")
  from tryEmbedFrom_keeps [OF t [unfolded tryEmbed_def]]
  have k: "groups st1 = groups st" "logged_hf st1 = logged_hf st"
    by simp_all
  show ?case
  proof (cases r)
    case (Inr vec)
    with Cons.prems b t k show ?thesis by auto
  next
    case (Inl err)
    with Cons.prems b t
    have "tryBackends e url buf bs (Some err)
            (st1\<lparr>logged_hf := logged_hf st1 @ [HfTryFail model err]\<rparr>) = (res, st')"
      by simp
    from Cons.IH [OF this] k show ?thesis
      by (simp add: embedFailsHf_def)
  qed
qed

lemma getEmbedding_keeps:
  "getEmbedding cfg e url st = (res, st') \<Longrightarrow>
     groups st' = groups st \<and> embedFailsHf (logged_hf st') = embedFailsHf (logged_hf st)"
  by (auto simp add: getEmbedding_def split: option.splits if_splits sum.splits
      dest: tryBackends_keeps)

lemma embedAll_accounts:
  "embedAll cfg e fname urls vecs st = (vecs', st') \<Longrightarrow>
     groups st' = groups st
     \<and> length vecs' + embedFailsHf (logged_hf st')
         = length vecs + embedFailsHf (logged_hf st) + length urls"
proof (induction urls arbitrary: vecs st)
  case Nil
  then show ?case by simp
next
  case (Cons u us)
  obtain r st1 where g: "getEmbedding cfg e u st = (r, st1)"
    by (cases "getEmbedding cfg e u st")
  note k = getEmbedding_keeps [OF g]
  show ?case
  proof (cases r)
    case (Inr vec)
    with Cons.prems g have "embedAll cfg e fname us (vecs @ [vec]) st1 = (vecs', st')"
      by simp
    from Cons.IH [OF this] k show ?thesis by simp
  next
    case (Inl err)
    with Cons.prems g
    have "embedAll cfg e fname us vecs
            (st1\<lparr>logged_hf := logged_hf st1 @ [EmbedFailHf fname u err]\<rparr>) = (vecs', st')"
      by simp
    from Cons.IH [OF this] k show ?thesis
      by (simp add: embedFailsHf_def)
  qed
qed




lemma ex_discover_hf_refs:
  "discoverReferenceFolders ex_config_hf ex_env_hf_refs
   = Inr [''Reference Female A'', ''Reference Male B'']"
  by (simp add: discoverReferenceFolders_def ex_config_hf_def ex_env_hf_refs_def
      isReferenceName_def toLowerCase_def toLowerChar_def isSpace_def)

lemma ex_getEmbedding_refs_a1:
  assumes "embedCache st = Map.empty"
  shows "getEmbedding ex_config_hf ex_env_hf_refs ''https://res.example.com/ref/a1.jpg'' st
         = (Inr [Some 1, Some 0],
            st\<lparr>requests := requests st + 1,
               embedCache := [''https://res.example.com/ref/a1.jpg'' \<mapsto> [Some 1, Some 0]]\<rparr>)"
proof -
  have t: "tryEmbed ex_env_hf_refs route ''bytes'' st
           = (Inr [Some 1, Some 0], st\<lparr>requests := requests st + 1\<rparr>)" for route
    unfolding tryEmbed_def
    using tryEmbedFrom_ok [of 1 ex_env_hf_refs st route "''bytes''" "JArr [JNum 1, JNum 0]" None]
    by (simp add: maxAttempts_def ex_env_hf_refs_def)
  have "getEmbedding ex_config_hf ex_env_hf_refs ''https://res.example.com/ref/a1.jpg'' st
        = tryBackends ex_env_hf_refs ''https://res.example.com/ref/a1.jpg'' ''bytes''
            (backends ex_config_hf) None st"
    using assms by (simp add: getEmbedding_def ex_config_hf_def ex_env_hf_refs_def)
  also have "\<dots> = (Inr [Some 1, Some 0],
            st\<lparr>requests := requests st + 1,
               embedCache := [''https://res.example.com/ref/a1.jpg'' \<mapsto> [Some 1, Some 0]]\<rparr>)"
    using assms by (subst ex_backends) (simp add: t)
  finally show ?thesis .
qed

lemma ex_getEmbedding_refs_a2:
  assumes "embedCache st ''https://res.example.com/ref/a2.jpg'' = None"
  shows "getEmbedding ex_config_hf ex_env_hf_refs ''https://res.example.com/ref/a2.jpg'' st
         = (Inl (ImageFetchFailed ''image_fetch_failed:404''), st)"
  using assms by (simp add: getEmbedding_def ex_config_hf_def ex_env_hf_refs_def)



theorem C7_cached_groups_well_formed_witness:
  "fixedLength ex_env_one_image_fails 2
   \<and> loadClusters ex_config_folders ex_env_one_image_fails ex_state0 =
     (None,
      \<lparr>clusters = [\<lparr>c_label = ''Reference Female A'', c_gender = ''female'', c_size = 1,
                     c_centroid = [0.6, 0.8]\<rparr>],
       logged = [EmbedFail ''Reference Female A'' ''https://res.example.com/ref/a2.jpg''
                   ''image_fetch_failed:404'',
                 Loaded [(''Reference Female A'', 1)]]\<rparr>)
   \<and> wellFormed ex_config_folders ex_env_one_image_fails
         \<lparr>c_label = ''Reference Female A'', c_gender = ''female'', c_size = 1,
          c_centroid = [0.6, 0.8]\<rparr>
   \<and> centroidOf (embedded ex_env_one_image_fails
         (sampled ex_config_folders ex_env_one_image_fails ''Reference Female A'')) = [0.6, 0.8]"
proof -
  have fl: "fixedLength ex_env_one_image_fails 2"
    by (auto simp add: fixedLength_def ex_env_one_image_fails_def split: if_splits)
  note run = ex_loadClusters_one_image_fails
  note inst = C7_cached_groups_well_formed [OF fl,
      where cfg = ex_config_folders and st = ex_state0
        and st' = "\<lparr>clusters = [\<lparr>c_label = ''Reference Female A'', c_gender = ''female'',
                                  c_size = 1, c_centroid = [0.6, 0.8]\<rparr>],
                    logged = [EmbedFail ''Reference Female A''
                                ''https://res.example.com/ref/a2.jpg'' ''image_fetch_failed:404'',
                              Loaded [(''Reference Female A'', 1)]]\<rparr>"]
  from conjunct1 [OF inst] run
  have wf: "wellFormed ex_config_folders ex_env_one_image_fails
         \<lparr>c_label = ''Reference Female A'', c_gender = ''female'', c_size = 1,
          c_centroid = [0.6, 0.8]\<rparr>"
    by simp
  then have "centroidOf (embedded ex_env_one_image_fails
         (sampled ex_config_folders ex_env_one_image_fails ''Reference Female A'')) = [0.6, 0.8]"
    by (simp add: wellFormed_def Let_def)
  with fl run wf show ?thesis
    by (intro conjI)
qed

subsection \<open>Height score\<close>

lemma heightScore_unfold:
  "heightScoreFactory P (Height x) =
     (if x = 0 then 0 else if x \<le> minH P then 0 else if x \<ge> maxH P then 1
      else clamp01 (rampWithBonus P x))"
  unfolding heightScoreFactory_def rampWithBonus_def Let_def
  by (simp only: height_in.case)

lemma heightScore_cases:
  assumes "0 \<le> minH P"
  shows "heightScoreFactory P (Height x) =
           (if x \<le> minH P then 0 else if x \<ge> maxH P then 1 else clamp01 (rampWithBonus P x))"
  using assms unfolding heightScore_unfold by auto

lemma u_exp_bound: "u * exp (- (u ^ 2)) \<le> 1 / 2" for u :: real
proof (cases "u \<le> 0")
  case True
  have "0 \<le> exp (- (u ^ 2))" by simp
  with True have "u * exp (- (u ^ 2)) \<le> 0"
    by (simp add: mult_nonpos_nonneg)
  then show ?thesis by simp
next
  case False
  then have pos: "0 < u" by simp
  have "2 * u \<le> 1 + u ^ 2"
    using sum_squares_bound [of 1 u] by (simp add: power2_eq_square)
  also have "\<dots> \<le> exp (u ^ 2)"
    by (rule exp_ge_add_one_self)
  finally have "2 * u \<le> exp (u ^ 2)" .
  then have "u * 2 / exp (u ^ 2) \<le> 1"
    by (simp add: divide_le_eq mult.commute)
  then show ?thesis
    by (simp add: exp_minus field_simps)
qed

lemma bell_deriv:
  fixes L w t c a :: real
  assumes "w \<noteq> 0" and "L \<noteq> 0"
  shows "((\<lambda>x. (x - a) / L + exp (- (((x - t) / w) ^ 2)) * c)
           has_real_derivative (1 / L - c * (2 / w) * (((x - t) / w) * exp (- (((x - t) / w) ^ 2)))))
         (at x)"
  using assms by (auto intro!: derivative_eq_intros simp add: power2_eq_square)


lemma rampWithBonus_deriv:
  assumes "minH P < maxH P"
  shows "\<exists>y. (rampWithBonus P has_real_derivative y) (at x) \<and> 0 \<le> y"
proof -
  define L where "L = maxH P - minH P"
  define w where "w = L / 2 / 2"
  define u where "u = (x - targetH P) / w"
  have L: "0 < L" using assms by (simp add: L_def)
  then have w: "0 < w" by (simp add: w_def)
  have fn: "rampWithBonus P = (\<lambda>x. (x - minH P) / L + exp (- (((x - targetH P) / w) ^ 2)) * 0.15)"
    by (simp add: rampWithBonus_def [abs_def] L_def w_def)
  have d: "(rampWithBonus P has_real_derivative (1 / L - 0.15 * (2 / w) * (u * exp (- (u ^ 2))))) (at x)"
    unfolding fn u_def using w L by (intro bell_deriv) simp_all
  have "u * exp (- (u ^ 2)) \<le> 1 / 2"
    by (rule u_exp_bound)
  moreover have "0 \<le> 0.15 * (2 / w)"
    using w by simp
  ultimately have "0.15 * (2 / w) * (u * exp (- (u ^ 2))) \<le> 0.15 * (2 / w) * (1 / 2)"
    by (rule mult_left_mono)
  also have "\<dots> = 0.6 / L"
    using L by (simp add: w_def)
  also have "\<dots> \<le> 1 / L"
    using L by (simp add: field_simps)
  finally have "0 \<le> 1 / L - 0.15 * (2 / w) * (u * exp (- (u ^ 2)))"
    by simp
  with d show ?thesis by blast
qed

lemma rampWithBonus_mono:
  assumes "minH P < maxH P" and "x \<le> y"
  shows "rampWithBonus P x \<le> rampWithBonus P y"
  using assms(2) rampWithBonus_deriv [OF assms(1)]
  by (rule DERIV_nonneg_imp_nondecreasing)

lemma clamp01_mono: "x \<le> y \<Longrightarrow> clamp01 x \<le> clamp01 y"
  by (simp add: clamp01_def clamp_def min_def max_def)

lemma clamp01_range: "0 \<le> clamp01 x \<and> clamp01 x \<le> 1"
  by (simp add: clamp01_def clamp_def)

lemma heightScore_range:
  assumes "0 \<le> minH P"
  shows "0 \<le> heightScoreFactory P (Height x) \<and> heightScoreFactory P (Height x) \<le> 1"
  using clamp01_range [of "rampWithBonus P x"] by (simp add: heightScore_cases [OF assms])

lemma heightScore_mono:
  assumes "0 \<le> minH P" and "minH P < maxH P" and "x \<le> y"
  shows "heightScoreFactory P (Height x) \<le> heightScoreFactory P (Height y)"
proof (cases "x \<le> minH P")
  case True
  then have "heightScoreFactory P (Height x) = 0"
    by (simp add: heightScore_cases [OF assms(1)])
  with heightScore_range [OF assms(1), of y] show ?thesis by simp
next
  case xlow: False
  show ?thesis
  proof (cases "y \<ge> maxH P")
    case True
    with assms(2) have "heightScoreFactory P (Height y) = 1"
      by (simp add: heightScore_cases [OF assms(1)])
    with heightScore_range [OF assms(1), of x] show ?thesis by simp
  next
    case False
    with xlow assms(3) have "\<not> y \<le> minH P" "\<not> x \<ge> maxH P"
      by simp_all
    with xlow False show ?thesis
      using clamp01_mono [OF rampWithBonus_mono [OF assms(2,3)]]
      by (simp add: heightScore_cases [OF assms(1)])
  qed
qed

lemma bonus_range:
  "0 < exp (- (((x - t) / w) ^ 2)) * (0.15 :: real) \<and> exp (- (((x - t) / w) ^ 2)) * 0.15 \<le> 0.15"
  by simp

lemma clamped_sum_near:
  fixes s b :: real
  assumes "0 < s" and "s < 1" and "0 < b" and "b \<le> 0.15"
  shows "s \<le> clamp01 (s + b) \<and> clamp01 (s + b) \<le> s + 0.15"
  using assms by (simp add: clamp01_def clamp_def min_def max_def)

lemma heightScore_near_ramp:
  assumes "0 \<le> minH P" and "minH P < maxH P"
  shows "ramp P x \<le> heightScoreFactory P (Height x)
         \<and> heightScoreFactory P (Height x) \<le> ramp P x + 0.15"
proof -
  let ?s = "(x - minH P) / (maxH P - minH P)"
  let ?bonus = "exp (- (((x - targetH P) / ((maxH P - minH P) / 2 / 2)) ^ 2)) * 0.15"
  have b: "0 < ?bonus \<and> ?bonus \<le> 0.15"
    by (rule bonus_range)
  consider "x \<le> minH P" | "x \<ge> maxH P" "\<not> x \<le> minH P" | "minH P < x" "x < maxH P"
    by linarith
  then show ?thesis
  proof cases
    case 1
    with assms(2) have "?s \<le> 0"
      by (simp add: divide_le_0_iff)
    with 1 show ?thesis
      by (simp add: heightScore_cases [OF assms(1)] ramp_def)
  next
    case 2
    with assms(2) have "1 \<le> ?s"
      by (simp add: le_divide_eq)
    with 2 show ?thesis
      by (simp add: heightScore_cases [OF assms(1)] ramp_def)
  next
    case 3
    with assms(2) have s: "0 < ?s" "?s < 1"
      by (simp_all add: divide_less_eq)
    have f: "heightScoreFactory P (Height x) = clamp01 (?s + ?bonus)"
      using 3 by (simp add: heightScore_cases [OF assms(1)] rampWithBonus_def)
    have r: "ramp P x = ?s"
      using s by (simp add: ramp_def)
    show ?thesis
      unfolding f r using s b by (intro clamped_sum_near) simp_all
  qed
qed

lemma ramp_continuous: "minH P < maxH P \<Longrightarrow> continuous_on UNIV (ramp P)"
  unfolding ramp_def [abs_def] by (intro continuous_intros) simp

lemma ramp_mono:
  assumes "minH P < maxH P" and "x \<le> y"
  shows "ramp P x \<le> ramp P y"
proof -
  have "(x - minH P) / (maxH P - minH P) \<le> (y - minH P) / (maxH P - minH P)"
    using assms by (simp add: divide_right_mono)
  then show ?thesis
    by (simp add: ramp_def min_def max_def)
qed


lemma clamp01_rampWithBonus_top:
  assumes "minH P < maxH P" and "maxH P \<le> y"
  shows "clamp01 (rampWithBonus P y) = 1"
proof -
  have "1 \<le> (y - minH P) / (maxH P - minH P)"
    using assms by (simp add: le_divide_eq)
  moreover have "0 < exp (- (((y - targetH P) / ((maxH P - minH P) / 2 / 2)) ^ 2)) * (0.15 :: real)"
    by simp
  ultimately have "1 \<le> rampWithBonus P y"
    unfolding rampWithBonus_def by linarith
  then show ?thesis
    by (simp add: clamp01_def clamp_def)
qed

lemma clamp01_rampWithBonus_continuous:
  assumes "minH P < maxH P"
  shows "isCont (\<lambda>x. clamp01 (rampWithBonus P x)) x"
  unfolding clamp01_def clamp_def rampWithBonus_def
  using assms by (intro continuous_intros) simp_all

lemma heightScore_isCont:
  assumes "0 \<le> minH P" and "minH P < maxH P" and "x \<noteq> minH P"
  shows "isCont (\<lambda>x. heightScoreFactory P (Height x)) x"
proof (cases "x < minH P")
  case True
  have "eventually (\<lambda>y. heightScoreFactory P (Height y) = 0) (nhds x)"
    unfolding eventually_nhds
  proof (intro exI [of _ "{..<minH P}"] conjI ballI)
    show "open {..<minH P}" by simp
    show "x \<in> {..<minH P}" using True by simp
  next
    fix y assume "y \<in> {..<minH P}"
    then show "heightScoreFactory P (Height y) = 0"
      by (simp add: heightScore_cases [OF assms(1)])
  qed
  then have "isCont (\<lambda>x. heightScoreFactory P (Height x)) x = isCont (\<lambda>x. 0 :: real) x"
    by (rule isCont_cong)
  then show ?thesis by simp
next
  case False
  with assms(3) have gt: "minH P < x" by simp
  have "eventually (\<lambda>y. heightScoreFactory P (Height y) = clamp01 (rampWithBonus P y)) (nhds x)"
    unfolding eventually_nhds
  proof (intro exI [of _ "{minH P<..}"] conjI ballI)
    show "open {minH P<..}" by simp
    show "x \<in> {minH P<..}" using gt by simp
  next
    fix y assume "y \<in> {minH P<..}"
    then have y: "\<not> y \<le> minH P" by simp
    show "heightScoreFactory P (Height y) = clamp01 (rampWithBonus P y)"
    proof (cases "maxH P \<le> y")
      case True
      with y show ?thesis
        by (simp add: heightScore_cases [OF assms(1)] clamp01_rampWithBonus_top [OF assms(2)])
    next
      case False
      with y show ?thesis
        by (simp add: heightScore_cases [OF assms(1)])
    qed
  qed
  then have "isCont (\<lambda>x. heightScoreFactory P (Height x)) x
             = isCont (\<lambda>x. clamp01 (rampWithBonus P x)) x"
    by (rule isCont_cong)
  with clamp01_rampWithBonus_continuous [OF assms(2)] show ?thesis by simp
qed

text \<open>Just above the minimum the score is at least the bonus there, which is positive.\<close>

lemma heightScore_above_min:
  assumes "0 \<le> minH P" and "minH P < maxH P"
    and "minH P < x" and "x < minH P + (maxH P - minH P) / 4"
  shows "0.15 * exp (- ((\<bar>minH P - targetH P\<bar> / ((maxH P - minH P) / 4) + 1) ^ 2))
         \<le> heightScoreFactory P (Height x)"
proof -
  define w where "w = (maxH P - minH P) / 4"
  define U where "U = \<bar>minH P - targetH P\<bar> / w + 1"
  define u where "u = (x - targetH P) / w"
  have w: "0 < w" using assms(2) by (simp add: w_def)
  have xw1: "x < minH P + w"
    using assms(4) by (simp add: w_def)
  have xw2: "x < maxH P"
    using assms(2,4) by argo
  note xw = xw1 xw2
  have "\<bar>x - targetH P\<bar> \<le> \<bar>minH P - targetH P\<bar> + w"
    using assms(3) xw(1) by linarith
  then have "\<bar>x - targetH P\<bar> / w \<le> (\<bar>minH P - targetH P\<bar> + w) / w"
    using w by (simp add: divide_right_mono)
  also have "\<dots> = U"
    using w by (simp add: U_def add_divide_distrib)
  finally have "\<bar>u\<bar> \<le> U"
    using w by (simp add: u_def)
  then have "\<bar>u\<bar> \<le> \<bar>U\<bar>" by simp
  then have "u ^ 2 \<le> U ^ 2"
    by (simp only: abs_le_square_iff)
  then have e: "exp (- (U ^ 2)) \<le> exp (- (u ^ 2))"
    by simp
  have s: "0 < (x - minH P) / (maxH P - minH P)"
    using assms(2,3) by simp
  have aux1: "0.15 * v \<le> 1" if "v \<le> 1" for v :: real
    using that by simp
  have aux2: "0.15 * v \<le> r + v' * 0.15" if "0 < r" and "v \<le> v'" for r v v' :: real
    using that by simp
  have c1: "0.15 * exp (- (U ^ 2)) \<le> (1 :: real)"
    by (rule aux1) simp
  have rb: "rampWithBonus P x = (x - minH P) / (maxH P - minH P) + exp (- (u ^ 2)) * 0.15"
    by (simp add: rampWithBonus_def u_def w_def)
  have "0.15 * exp (- (U ^ 2)) \<le> rampWithBonus P x"
    unfolding rb using s e by (rule aux2)
  with c1 have "0.15 * exp (- (U ^ 2)) \<le> clamp01 (rampWithBonus P x)"
    by (simp add: clamp01_def clamp_def)
  moreover have "heightScoreFactory P (Height x) = clamp01 (rampWithBonus P x)"
    using assms(3) xw(2) by (simp add: heightScore_cases [OF assms(1)])
  ultimately show ?thesis
    by (simp add: U_def w_def)
qed

lemma heightScore_jump_at_min:
  assumes "0 \<le> minH P" and "minH P < maxH P"
  shows "\<not> isCont (\<lambda>x. heightScoreFactory P (Height x)) (minH P)"
proof
  assume cont: "isCont (\<lambda>x. heightScoreFactory P (Height x)) (minH P)"
  define c where "c = 0.15 * exp (- ((\<bar>minH P - targetH P\<bar> / ((maxH P - minH P) / 4) + 1) ^ 2))"
  have c: "0 < c" by (simp add: c_def)
  have at_min: "heightScoreFactory P (Height (minH P)) = 0"
    by (simp add: heightScore_cases [OF assms(1)])
  from cont have "(\<lambda>x. heightScoreFactory P (Height x)) \<midarrow>minH P\<rightarrow> 0"
    by (simp add: isCont_def at_min)
  with c obtain s where s: "0 < s"
    and close: "\<And>x. x \<noteq> minH P \<and> norm (x - minH P) < s \<Longrightarrow> norm (heightScoreFactory P (Height x) - 0) < c"
    unfolding LIM_eq by blast
  define x where "x = minH P + min (s / 2) ((maxH P - minH P) / 8)"
  have pos: "0 < min (s / 2) ((maxH P - minH P) / 8)"
    using s assms(2) by simp
  have x1: "minH P < x" using pos by (simp add: x_def)
  have x2: "x < minH P + (maxH P - minH P) / 4"
    using assms(2) by (simp add: x_def min_def)
  have x3: "norm (x - minH P) < s"
    using s pos by (simp add: x_def min_def)
  from close [of x] x1 x3 have "norm (heightScoreFactory P (Height x) - 0) < c"
    by simp
  moreover from heightScore_above_min [OF assms x1 x2] have "c \<le> heightScoreFactory P (Height x)"
    by (simp add: c_def)
  ultimately show False by simp
qed


text \<open>
  Coming down to the minimum from above, the score tends to the bonus at the minimum.
\<close>

lemma bonus_at_min:
  assumes "minH P < maxH P"
  shows "clamp01 (rampWithBonus P (minH P))
         = 0.15 * exp (- (((minH P - targetH P) / ((maxH P - minH P) / 4)) ^ 2))"
proof -
  define b where "b = exp (- (((minH P - targetH P) / ((maxH P - minH P) / 4)) ^ 2))"
  have "0 < b" "b \<le> 1"
    by (simp_all add: b_def)
  then have c: "clamp01 (b * 0.15) = 0.15 * b"
    by (simp add: clamp01_def clamp_def)
  have r: "rampWithBonus P (minH P) = b * 0.15"
    by (simp add: rampWithBonus_def b_def)
  show ?thesis
    unfolding r c by (simp only: b_def)
qed

lemma heightScore_limit_above_min:
  assumes "0 \<le> minH P" and "minH P < maxH P"
  shows "((\<lambda>z. heightScoreFactory P (Height z))
            \<longlongrightarrow> 0.15 * exp (- (((minH P - targetH P) / ((maxH P - minH P) / 4)) ^ 2)))
           (at_right (minH P))"
proof -
  have "isCont (\<lambda>x. clamp01 (rampWithBonus P x)) (minH P)"
    using assms(2) by (rule clamp01_rampWithBonus_continuous)
  then have "((\<lambda>x. clamp01 (rampWithBonus P x)) \<longlongrightarrow> clamp01 (rampWithBonus P (minH P)))
               (at (minH P))"
    by (simp add: isCont_def)
  then have lim: "((\<lambda>x. clamp01 (rampWithBonus P x)) \<longlongrightarrow> clamp01 (rampWithBonus P (minH P)))
               (at_right (minH P))"
    by (rule filterlim_mono) (simp_all add: at_le)
  have "eventually (\<lambda>z. clamp01 (rampWithBonus P z) = heightScoreFactory P (Height z))
          (at_right (minH P))"
    unfolding eventually_at_right [OF assms(2)]
  proof (intro exI [of _ "maxH P"] conjI allI impI)
    show "minH P < maxH P" by (rule assms(2))
  next
    fix y assume "minH P < y" and "y < maxH P"
    then show "clamp01 (rampWithBonus P y) = heightScoreFactory P (Height y)"
      by (simp add: heightScore_cases [OF assms(1)])
  qed
  with lim have "((\<lambda>z. heightScoreFactory P (Height z)) \<longlongrightarrow> clamp01 (rampWithBonus P (minH P)))
               (at_right (minH P))"
    by (rule Lim_transform_eventually)
  then show ?thesis
    by (simp only: bonus_at_min [OF assms(2)])
qed

lemma heightScore_between:
  assumes "0 \<le> minH P" and "minH P < x" and "x < maxH P"
  shows "heightScoreFactory P (Height x)
         = max 0 (min 1 ((x - minH P) / (maxH P - minH P)
                         + 0.15 * exp (- (((x - targetH P) / ((maxH P - minH P) / 4)) ^ 2))))"
  using assms(2,3)
  by (simp add: heightScore_cases [OF assms(1)] rampWithBonus_def clamp01_def clamp_def)

lemma PREFS_height_ok:
  "0 \<le> minH (height (PREFS GEN)) \<and> minH (height (PREFS GEN)) < maxH (height (PREFS GEN))"
  "0 \<le> minH (height (PREFS_old GEN)) \<and> minH (height (PREFS_old GEN)) < maxH (height (PREFS_old GEN))"
  by (simp_all add: PREFS_def PREFS_old_def PREFS_male_def PREFS_female_def)

text \<open>
  C4, as stated, fails at the profile minimum: for the female profile the score is 0 at
  172 and at least \<open>0.15 * exp (- 9)\<close> just above it, because the bonus is added only
  strictly between the minimum and the maximum and is not zero there.
\<close>

theorem C4_jump_at_minimum_counterexample:
  "heightScoreFactory (height (PREFS ''female'')) (Height 172) = 0
   \<and> \<not> isCont (\<lambda>x. heightScoreFactory (height (PREFS ''female'')) (Height x)) 172"
proof -
  have m: "minH (height (PREFS ''female'')) = 172"
    by (simp add: PREFS_def PREFS_female_def)
  from heightScore_jump_at_min [of "height (PREFS ''female'')"] PREFS_height_ok(1) [of "''female''"]
  have "\<not> isCont (\<lambda>x. heightScoreFactory (height (PREFS ''female'')) (Height x)) 172"
    by (simp add: m)
  moreover have "heightScoreFactory (height (PREFS ''female'')) (Height 172) = 0"
    by (simp add: heightScore_unfold m)
  ultimately show ?thesis by simp
qed

text \<open>
  C4, amended: for a profile with \<open>0 \<le> min < max\<close> (both profiles of every file are such),
  the height score is 0 at or below the minimum (and for an absent or non-numeric
  height), 1 at or above the maximum, and strictly between them the ramp plus the bonus
  \<open>0.15 * exp (- ((x - target) / ((max - min) / 4))\<^sup>2)\<close>, clamped to \<open>[0, 1]\<close>. It is
  monotonically non-decreasing over all heights, lies between the linear ramp and the
  ramp plus 0.15 (the ramp being continuous), and is continuous at every height except
  the minimum: there the score is 0, while from above it tends to the bonus at the
  minimum, which is positive.
\<close>

theorem C4_height_score_shape:
  assumes "0 \<le> minH P" and "minH P < maxH P"
  shows "(x \<le> minH P \<longrightarrow> heightScoreFactory P (Height x) = 0)
         \<and> (maxH P \<le> x \<longrightarrow> heightScoreFactory P (Height x) = 1)
         \<and> heightScoreFactory P NoHeight = 0 \<and> heightScoreFactory P NotNumeric = 0
         \<and> (x \<le> y \<longrightarrow> heightScoreFactory P (Height x) \<le> heightScoreFactory P (Height y))
         \<and> (x \<noteq> minH P \<longrightarrow> isCont (\<lambda>z. heightScoreFactory P (Height z)) x)
         \<and> ramp P x \<le> heightScoreFactory P (Height x)
         \<and> heightScoreFactory P (Height x) \<le> ramp P x + 0.15
         \<and> continuous_on UNIV (ramp P)
         \<and> (minH P < x \<and> x < maxH P \<longrightarrow>
              heightScoreFactory P (Height x)
              = max 0 (min 1 ((x - minH P) / (maxH P - minH P)
                              + 0.15 * exp (- (((x - targetH P) / ((maxH P - minH P) / 4)) ^ 2)))))
         \<and> heightScoreFactory P (Height (minH P)) = 0
         \<and> ((\<lambda>z. heightScoreFactory P (Height z))
               \<longlongrightarrow> 0.15 * exp (- (((minH P - targetH P) / ((maxH P - minH P) / 4)) ^ 2)))
              (at_right (minH P))
         \<and> 0 < 0.15 * exp (- (((minH P - targetH P) / ((maxH P - minH P) / 4)) ^ 2))
         \<and> \<not> isCont (\<lambda>z. heightScoreFactory P (Height z)) (minH P)"
proof (intro conjI impI)
  show "heightScoreFactory P (Height x) = 0" if "x \<le> minH P"
    using that by (simp add: heightScore_cases [OF assms(1)])
  show "heightScoreFactory P (Height x) = 1" if "maxH P \<le> x"
    using that assms(2) by (simp add: heightScore_cases [OF assms(1)])
  show "heightScoreFactory P NoHeight = 0" "heightScoreFactory P NotNumeric = 0"
    by (simp_all add: heightScoreFactory_def)
  show "heightScoreFactory P (Height x) \<le> heightScoreFactory P (Height y)" if "x \<le> y"
    using assms that by (rule heightScore_mono)
  show "isCont (\<lambda>z. heightScoreFactory P (Height z)) x" if "x \<noteq> minH P"
    using assms that by (rule heightScore_isCont)
  show "ramp P x \<le> heightScoreFactory P (Height x)"
    "heightScoreFactory P (Height x) \<le> ramp P x + 0.15"
    using heightScore_near_ramp [OF assms, of x] by simp_all
  show "continuous_on UNIV (ramp P)"
    using assms(2) by (rule ramp_continuous)
  show "heightScoreFactory P (Height x)
        = max 0 (min 1 ((x - minH P) / (maxH P - minH P)
                        + 0.15 * exp (- (((x - targetH P) / ((maxH P - minH P) / 4)) ^ 2))))"
    if "minH P < x \<and> x < maxH P"
    using that heightScore_between [OF assms(1), of x] by simp
  show "heightScoreFactory P (Height (minH P)) = 0"
    by (simp add: heightScore_cases [OF assms(1)])
  show "((\<lambda>z. heightScoreFactory P (Height z))
               \<longlongrightarrow> 0.15 * exp (- (((minH P - targetH P) / ((maxH P - minH P) / 4)) ^ 2)))
              (at_right (minH P))"
    using assms by (rule heightScore_limit_above_min)
  show "0 < 0.15 * exp (- (((minH P - targetH P) / ((maxH P - minH P) / 4)) ^ 2))"
    by simp
  show "\<not> isCont (\<lambda>z. heightScoreFactory P (Height z)) (minH P)"
    using assms by (rule heightScore_jump_at_min)
qed

theorem C4_height_score_shape_witness:
  "0 \<le> minH (height (PREFS ''female''))
   \<and> minH (height (PREFS ''female'')) < maxH (height (PREFS ''female''))
   \<and> heightScoreFactory (height (PREFS ''female'')) (Height 170) = 0
   \<and> heightScoreFactory (height (PREFS ''female'')) (Height 183) = 1
   \<and> heightScoreFactory (height (PREFS ''female'')) (Height 170)
       \<le> heightScoreFactory (height (PREFS ''female'')) (Height 183)
   \<and> isCont (\<lambda>z. heightScoreFactory (height (PREFS ''female'')) (Height z)) 170
   \<and> heightScoreFactory (height (PREFS ''female'')) (Height 172) = 0
   \<and> ((\<lambda>z. heightScoreFactory (height (PREFS ''female'')) (Height z))
        \<longlongrightarrow> 0.15 * exp (- 4)) (at_right 172)"
proof -
  have ok: "0 \<le> minH (height (PREFS ''female''))"
    "minH (height (PREFS ''female'')) < maxH (height (PREFS ''female''))"
    using PREFS_height_ok(1) [of "''female''"] by simp_all
  have v: "minH (height (PREFS ''female'')) = 172" "maxH (height (PREFS ''female'')) = 182"
    by (simp_all add: PREFS_def PREFS_female_def)
  note inst = C4_height_score_shape [OF ok, of 170 183]
  from inst have lo: "heightScoreFactory (height (PREFS ''female'')) (Height 170) = 0"
    by (simp add: v)
  from C4_height_score_shape [OF ok, of 183 183]
  have hi: "heightScoreFactory (height (PREFS ''female'')) (Height 183) = 1"
    by (simp add: v)
  from inst have cont: "isCont (\<lambda>z. heightScoreFactory (height (PREFS ''female'')) (Height z)) 170"
    by (simp add: v)
  have t: "targetH (height (PREFS ''female'')) = 177"
    by (simp add: PREFS_def PREFS_female_def)
  from inst have at_min: "heightScoreFactory (height (PREFS ''female'')) (Height 172) = 0"
    by (simp add: v)
  have "(((172 :: real) - 177) / ((182 - 172) / 4)) ^ 2 = 4"
    by (simp add: power2_eq_square)
  with inst have jump: "((\<lambda>z. heightScoreFactory (height (PREFS ''female'')) (Height z))
        \<longlongrightarrow> 0.15 * exp (- 4)) (at_right 172)"
    by (simp only: v t)
  from ok lo hi cont at_min jump show ?thesis
    by simp
qed

subsection \<open>Reload requests while a build is in flight\<close>

lemma loadFoldersAt_append:
  "loadFoldersAt cfg w (xs @ ys) acc =
     (case loadFoldersAt cfg w xs acc of
        (Inl err, lg) \<Rightarrow> (Inl err, lg)
      | (Inr out, lg) \<Rightarrow> loadFoldersAt cfg w ys (out, lg))"
proof (induction xs arbitrary: acc)
  case Nil
  show ?case by (cases acc) simp
next
  case (Cons x xs)
  obtain f t where x: "x = (f, t)" by (cases x)
  show ?case
    by (cases "loadFolder cfg (w t) f acc") (auto simp add: x Cons.IH split: sum.splits)
qed

lemma zip_snoc:
  assumes "length ts < length fs"
  shows "zip fs (ts @ [t]) = zip fs ts @ [(fs ! length ts, t)]"
proof -
  have "zip fs (ts @ [t]) = zip (take (length ts) fs @ drop (length ts) fs) (ts @ [t])"
    by simp
  also have "\<dots> = zip (take (length ts) fs) ts @ zip (drop (length ts) fs) [t]"
    using assms by (subst zip_append) simp_all
  also have "zip (drop (length ts) fs) [t] = [(fs ! length ts, t)]"
    using assms by (cases "drop (length ts) fs") (simp_all add: hd_drop_conv_nth [symmetric])
  also have "zip (take (length ts) fs) ts = zip fs ts"
  proof -
    have "zip (take (length ts) fs) ts = take (length ts) (zip fs ts)"
      by (simp add: take_zip)
    also have "\<dots> = zip fs ts"
      by simp
    finally show ?thesis .
  qed
  finally show ?thesis .
qed

lemma turnsWithin_mono:
  "turnsWithin lo hi hist \<Longrightarrow> hi \<le> hi' \<Longrightarrow> turnsWithin lo hi' hist"
  by (auto simp add: turnsWithin_def list_all_iff)

lemma turnsWithin_snoc:
  "turnsWithin lo hi hist \<Longrightarrow> lo \<le> hi \<Longrightarrow> turnsWithin lo (Suc hi) (hist @ [hi])"
  by (auto simp add: turnsWithin_def list_all_iff sorted_wrt_append)

lemma turnsWithin_single:
  "lo \<le> hi \<Longrightarrow> turnsWithin lo (Suc hi) [hi]"
  by (simp add: turnsWithin_def)

lemma onTrack_mono:
  "onTrack cfg w lo hi b \<Longrightarrow> hi \<le> hi' \<Longrightarrow> onTrack cfg w lo hi' b"
  by (auto simp add: onTrack_def turnsWithin_mono split: build.splits)

lemma heldAfter_start:
  "discoverReferenceFolders cfg (w t) = Inr fs \<Longrightarrow> heldAfter cfg w [t] fs [] []"
  by (simp add: heldAfter_def)

lemma heldAfter_step:
  assumes "heldAfter cfg w hist (f # rest) out lg"
    and "loadFolder cfg (w t) f (out, lg) = (Inr out', lg')"
  shows "heldAfter cfg w (hist @ [t]) rest out' lg'"
proof -
  from assms(1) obtain t0 ts fs where h: "hist = t0 # ts"
    "discoverReferenceFolders cfg (w t0) = Inr fs" "length ts \<le> length fs"
    "f # rest = drop (length ts) fs"
    "loadFoldersAt cfg w (zip fs ts) ([], []) = (Inr out, lg)"
    by (auto simp add: heldAfter_def split: list.splits sum.splits)
  from h(4) have lt: "length ts < length fs"
    by (metis drop_all list.simps(3) not_le_imp_less)
  from h(4) lt have f: "fs ! length ts = f"
    by (metis hd_drop_conv_nth list.sel(1))
  from h(4) have rest: "rest = drop (Suc (length ts)) fs"
    by (metis drop_Suc list.sel(3) tl_drop)
  have "loadFoldersAt cfg w (zip fs (ts @ [t])) ([], []) = (Inr out', lg')"
    using h(5) assms(2) by (simp add: zip_snoc [OF lt] f loadFoldersAt_append)
  with h(1,2) lt rest show ?thesis
    by (simp add: heldAfter_def)
qed

lemma heldAfter_builtAt:
  assumes "heldAfter cfg w hist [] out lg"
  shows "builtAt cfg w hist out"
proof -
  from assms obtain t0 ts fs where h: "hist = t0 # ts"
    "discoverReferenceFolders cfg (w t0) = Inr fs" "length ts \<le> length fs"
    "[] = drop (length ts) fs"
    "loadFoldersAt cfg w (zip fs ts) ([], []) = (Inr out, lg)"
    by (auto simp add: heldAfter_def split: list.splits sum.splits)
  from h(3,4) have "length ts = length fs"
    by simp
  with h(1,2,5) show ?thesis
    by (simp add: builtAt_def)
qed

lemma onTrack_removeAt:
  "list_all (onTrack cfg w lo hi) bs \<Longrightarrow> list_all (onTrack cfg w lo hi) (removeAt i bs)"
  by (auto simp add: removeAt_def list_all_iff dest: in_set_takeD in_set_dropD)

lemma onTrack_update:
  "list_all (onTrack cfg w lo hi) bs \<Longrightarrow> onTrack cfg w lo hi b \<Longrightarrow>
     list_all (onTrack cfg w lo hi) (bs[i := b])"
  by (auto simp add: list_all_iff dest!: subsetD [OF set_update_subset_insert])

lemma sound_mono:
  assumes "sound cfg w p0 lo hi s" and "hi \<le> hi'"
  shows "sound cfg w p0 lo hi' s"
  using assms
  by (auto simp add: sound_def list_all_iff intro: onTrack_mono turnsWithin_mono)

lemma sound_turn [simp]:
  "sound cfg w p0 lo hi (s\<lparr>turn := n\<rparr>) = sound cfg w p0 lo hi s"
  by (simp add: sound_def)

lemma settle_sound:
  assumes "sound cfg w p0 lo hi s" and "heldAfter cfg w hist rest out lg"
    and "turnsWithin lo hi hist"
  shows "sound cfg w p0 lo hi (settle i hist rest out lg s)"
proof (cases "rest = []")
  case True
  from assms(2) True have "builtAt cfg w hist out"
    by (simp add: heldAfter_builtAt)
  moreover from this have "hist \<noteq> []"
    by (auto simp add: builtAt_def)
  ultimately show ?thesis
    using assms(1,3) True by (simp add: sound_def settle_def onTrack_removeAt)
next
  case False
  then have "onTrack cfg w lo hi (Loading hist rest out lg)"
    using assms(2,3) by (simp add: onTrack_def)
  then show ?thesis
    using assms(1) False by (simp add: sound_def settle_def onTrack_update)
qed

lemma removed_sound:
  "sound cfg w p0 lo hi s \<Longrightarrow> sound cfg w p0 lo hi (s\<lparr>inflight := removeAt i (inflight s)\<rparr>)"
  by (simp add: sound_def onTrack_removeAt)

lemma resume_sound:
  assumes "sound cfg w p0 lo (turn s) s" and "lo \<le> turn s"
  shows "sound cfg w p0 lo (Suc (turn s)) (resume cfg (w (turn s)) i s)"
proof -
  from assms(1) have s1: "sound cfg w p0 lo (Suc (turn s)) s"
    by (rule sound_mono) simp
  show ?thesis
  proof (cases "i < length (inflight s)")
    case False
    with s1 show ?thesis by (simp add: resume_def)
  next
    case True
    show ?thesis
    proof (cases "inflight s ! i")
      case Discovering
      show ?thesis
      proof (cases "discoverReferenceFolders cfg (w (turn s))")
        case (Inl err)
        with True Discovering removed_sound [OF s1] show ?thesis
          by (simp add: resume_def)
      next
        case (Inr fs)
        from settle_sound [OF s1 heldAfter_start [of cfg w "turn s" fs, OF Inr]
            turnsWithin_single [OF assms(2)]]
        show ?thesis
          using True Discovering Inr by (simp add: resume_def)
      qed
    next
      case (Loading hist rest out lg)
      from assms(1) True Loading have tr: "onTrack cfg w lo (turn s) (Loading hist rest out lg)"
        by (auto simp add: sound_def list_all_length)
      then have ne: "rest \<noteq> []" and held: "heldAfter cfg w hist rest out lg"
        and tw: "turnsWithin lo (turn s) hist"
        by (simp_all add: onTrack_def)
      from ne obtain f rest' where rest: "rest = f # rest'"
        by (cases rest) auto
      obtain r lg' where lf: "loadFolder cfg (w (turn s)) f (out, lg) = (r, lg')"
        by (cases "loadFolder cfg (w (turn s)) f (out, lg)")
      show ?thesis
      proof (cases r)
        case (Inl err)
        with True Loading rest lf removed_sound [OF s1] show ?thesis
          by (simp add: resume_def)
      next
        case (Inr out')
        from settle_sound [OF s1 heldAfter_step [OF held [unfolded rest] lf [unfolded Inr]]
            turnsWithin_snoc [OF tw assms(2)]]
        show ?thesis
          using True Loading rest lf Inr by (simp add: resume_def)
      qed
    qed
  qed
qed

lemma reloadRequest_sound:
  assumes "sound cfg w p0 lo hi s"
  shows "sound cfg w p0 lo hi (reloadRequest cfg token s)"
  using assms by (simp add: reloadRequest_def sound_def onTrack_def)

lemma occur_turn: "turn (occur cfg w ev s) = Suc (turn s)"
  by (simp add: occur_def)

lemma occur_sound:
  assumes "sound cfg w p0 lo (turn s) s" and "lo \<le> turn s"
  shows "sound cfg w p0 lo (Suc (turn s)) (occur cfg w ev s)"
proof (cases ev)
  case (ReloadRequest token)
  from assms(1) have "sound cfg w p0 lo (Suc (turn s)) s"
    by (rule sound_mono) simp
  then show ?thesis
    using ReloadRequest by (simp add: occur_def reloadRequest_sound)
next
  case (Resume i)
  with resume_sound [OF assms, of i] show ?thesis
    by (simp add: occur_def)
qed

lemma run_turn: "turn (run cfg w evs s) = turn s + length evs"
  by (induction evs arbitrary: s) (simp_all add: run_def occur_turn)

lemma run_sound:
  assumes "sound cfg w p0 lo (turn s) s" and "lo \<le> turn s"
  shows "sound cfg w p0 lo (turn s + length evs) (run cfg w evs s)"
  using assms
proof (induction evs arbitrary: s)
  case Nil
  then show ?case by (simp add: run_def)
next
  case (Cons ev evs)
  have o: "sound cfg w p0 lo (turn (occur cfg w ev s)) (occur cfg w ev s)"
    unfolding occur_turn using Cons.prems by (rule occur_sound)
  have "lo \<le> turn (occur cfg w ev s)"
    unfolding occur_turn using Cons.prems(2) by simp
  from Cons.IH [OF o this] show ?case
    by (simp add: run_def occur_turn)
qed

lemma run_requests:
  assumes "\<not> LIGHT_MODE cfg" and "CLOUDINARY_CLOUD_NAME cfg \<noteq> [] \<and> CLOUDINARY_API_KEY cfg \<noteq> []
           \<and> CLOUDINARY_API_SECRET cfg \<noteq> []"
  shows "inflight (run cfg w (replicate n (ReloadRequest (ADMIN_TOKEN cfg))) s)
         = inflight s @ replicate n Discovering"
proof (induction n arbitrary: s)
  case 0
  show ?case by (simp add: run_def)
next
  case (Suc n)
  have "inflight (occur cfg w (ReloadRequest (ADMIN_TOKEN cfg)) s) = inflight s @ [Discovering]"
    using assms by (simp add: occur_def reloadRequest_def)
  with Suc [of "occur cfg w (ReloadRequest (ADMIN_TOKEN cfg)) s"] show ?case
    by (simp add: run_def replicate_app_Cons_same)
qed


text \<open>
  With collaborators that do not change, a call that runs alone builds what
  \<^verbatim>\<open>loadClusters\<close> builds.
\<close>

lemma loadFoldersAt_constant:
  "length ts = length fs \<Longrightarrow> loadFoldersAt cfg (\<lambda>t. e) (zip fs ts) acc = loadFolders cfg e fs acc"
proof (induction fs arbitrary: ts acc)
  case Nil
  then show ?case by simp
next
  case (Cons f fs)
  then obtain t ts' where ts: "ts = t # ts'" and len: "length ts' = length fs"
    by (cases ts) auto
  show ?case
    by (cases "loadFolder cfg e f acc") (auto simp add: ts Cons.IH [OF len] split: sum.splits)
qed

lemma builtAt_constant:
  "builtAt cfg (\<lambda>t. e) hist out \<Longrightarrow>
     \<not> (CLOUDINARY_CLOUD_NAME cfg = [] \<or> CLOUDINARY_API_KEY cfg = [] \<or> CLOUDINARY_API_SECRET cfg = []) \<Longrightarrow>
     fst (loadClusters cfg e \<lparr>clusters = p, logged = []\<rparr>) = None
     \<and> clusters (snd (loadClusters cfg e \<lparr>clusters = p, logged = []\<rparr>)) = out"
  by (auto simp add: builtAt_def loadClusters_def loadFoldersAt_constant
      split: list.splits sum.splits prod.splits)

text \<open>
  The calls of \<^verbatim>\<open>part_001\<close>: the work on one folder leaves the groups alone, and adds to the
  list of the call at most one group, for that folder.
\<close>

lemma loadFolders_p001_one:
  assumes "loadFolders_p001 cfg e [f] out st = (r, st')"
  shows "groups st' = groups st
         \<and> (\<forall>out'. r = Inr out' \<longrightarrow>
               out' = out
               \<or> (\<exists>g. out' = out @ [g] \<and> r_label g = f \<and> r_vecs g \<noteq> []
                        \<and> r_urls g = listed e f))"
proof (cases "searchFolderAssets e f")
  case (Inl msg)
  with assms show ?thesis by auto
next
  case (Inr urls)
  show ?thesis
  proof (cases "urls = []")
    case True
    with assms Inr show ?thesis by auto
  next
    case False
    obtain vecs st1 where ea: "embedAll cfg e f urls [] st = (vecs, st1)"
      by (cases "embedAll cfg e f urls [] st")
    from embedAll_accounts [OF ea] have g: "groups st1 = groups st"
      by simp
    from assms Inr False ea have r: "st' = st1"
      "r = Inr (if vecs \<noteq> []
                then out @ [\<lparr>r_label = f, r_gender = inferGenderFromFolder f,
                             r_urls = urls, r_vecs = vecs\<rparr>]
                else out)"
      by simp_all
    show ?thesis
      using r g Inr by (cases "vecs = []") (simp_all add: listed_def)
  qed
qed

lemma heldAfter_p001_start:
  "discoverReferenceFolders cfg (w t) = Inr fs \<Longrightarrow> heldAfter_p001 cfg w [t] fs []"
  by (simp add: heldAfter_p001_def)

lemma heldAfter_p001_step:
  assumes "heldAfter_p001 cfg w hist (f # rest) out"
    and "out' = out \<or> (\<exists>g. out' = out @ [g] \<and> r_label g = f \<and> r_vecs g \<noteq> []
                           \<and> r_urls g = listed (w t) f)"
  shows "heldAfter_p001 cfg w (hist @ [t]) rest out'"
proof -
  from assms(1) obtain t0 ts fs where h: "hist = t0 # ts"
    "discoverReferenceFolders cfg (w t0) = Inr fs" "length ts \<le> length fs"
    "f # rest = drop (length ts) fs"
    "subseq (map r_label out) (take (length ts) fs)"
    "list_all (\<lambda>g. r_vecs g \<noteq> [] \<and> list_ex (\<lambda>t. r_urls g = listed (w t) (r_label g)) ts) out"
    by (auto simp add: heldAfter_p001_def split: list.splits sum.splits)
  from h(4) have lt: "length ts < length fs"
    by (metis drop_all list.simps(3) not_le_imp_less)
  from h(4) lt have f: "fs ! length ts = f"
    by (metis hd_drop_conv_nth list.sel(1))
  from h(4) have rest: "rest = drop (Suc (length ts)) fs"
    by (metis drop_Suc list.sel(3) tl_drop)
  have tk: "take (Suc (length ts)) fs = take (length ts) fs @ [f]"
    using lt f by (simp add: take_Suc_conv_app_nth)
  have old: "list_all (\<lambda>g. r_vecs g \<noteq> []
               \<and> list_ex (\<lambda>t. r_urls g = listed (w t) (r_label g)) (ts @ [t])) out"
    using h(6) by (auto simp add: list_all_iff list_ex_iff)
  have sub: "subseq (map r_label out') (take (length ts) fs @ [f])"
  proof (cases "out' = out")
    case True
    with h(5) show ?thesis by (simp add: list_emb_prefix)
  next
    case False
    with assms(2) obtain g where g: "out' = out @ [g]" "r_label g = f"
      by auto
    have "subseq (map r_label out @ [f]) (take (length ts) fs @ [f])"
      using h(5) by (rule list_emb_append_mono) simp
    with g show ?thesis by simp
  qed
  have all: "list_all (\<lambda>g. r_vecs g \<noteq> []
               \<and> list_ex (\<lambda>t. r_urls g = listed (w t) (r_label g)) (ts @ [t])) out'"
  proof (cases "out' = out")
    case True
    with old show ?thesis by simp
  next
    case False
    with assms(2) obtain g where g: "out' = out @ [g]" "r_label g = f" "r_vecs g \<noteq> []"
      "r_urls g = listed (w t) f"
      by auto
    with old show ?thesis by simp
  qed
  show ?thesis
    using h(1,2) lt rest sub all by (simp add: heldAfter_p001_def tk)
qed

lemma onTrack_p001_mono:
  "onTrack_p001 cfg w lo hi b \<Longrightarrow> hi \<le> hi' \<Longrightarrow> onTrack_p001 cfg w lo hi' b"
  by (auto simp add: onTrack_p001_def turnsWithin_mono split: build_hf.splits)

lemma onTrack_p001_removeAt:
  "list_all (onTrack_p001 cfg w lo hi) bs \<Longrightarrow> list_all (onTrack_p001 cfg w lo hi) (removeAt i bs)"
  by (auto simp add: removeAt_def list_all_iff dest: in_set_takeD in_set_dropD)

lemma onTrack_p001_update:
  "list_all (onTrack_p001 cfg w lo hi) bs \<Longrightarrow> onTrack_p001 cfg w lo hi b \<Longrightarrow>
     list_all (onTrack_p001 cfg w lo hi) (bs[i := b])"
  by (auto simp add: list_all_iff dest!: subsetD [OF set_update_subset_insert])

lemma sound_p001_mono:
  assumes "sound_p001 cfg w g0 lo hi s" and "hi \<le> hi'"
  shows "sound_p001 cfg w g0 lo hi' s"
  using assms
  by (auto simp add: sound_p001_def list_all_iff intro: onTrack_p001_mono turnsWithin_mono)

lemma settle_p001_sound:
  assumes "sound_p001 cfg w g0 lo hi s" and "heldAfter_p001 cfg w hist rest out"
    and "turnsWithin lo hi hist" and "groups st = groups (shared s)"
  shows "sound_p001 cfg w g0 lo hi (settle_p001 i hist rest out st s)"
proof (cases "rest = []")
  case True
  from assms(2) have "hist \<noteq> []"
    by (auto simp add: heldAfter_p001_def)
  then show ?thesis
    using assms(1,2,3) True by (simp add: sound_p001_def settle_p001_def onTrack_p001_removeAt)
next
  case False
  then have "onTrack_p001 cfg w lo hi (Loading_hf hist rest out)"
    using assms(2,3) by (simp add: onTrack_p001_def)
  then show ?thesis
    using assms(1,4) False by (simp add: sound_p001_def settle_p001_def onTrack_p001_update)
qed

lemma removed_p001_sound:
  assumes "sound_p001 cfg w g0 lo hi s" and "groups st = groups (shared s)"
  shows "sound_p001 cfg w g0 lo hi (s\<lparr>shared := st, inflight_hf := removeAt i (inflight_hf s)\<rparr>)"
  using assms by (simp add: sound_p001_def onTrack_p001_removeAt)

lemma resume_p001_sound:
  assumes "sound_p001 cfg w g0 lo (turn_hf s) s" and "lo \<le> turn_hf s"
  shows "sound_p001 cfg w g0 lo (Suc (turn_hf s)) (resume_p001 cfg (w (turn_hf s)) i s)"
proof -
  from assms(1) have s1: "sound_p001 cfg w g0 lo (Suc (turn_hf s)) s"
    by (rule sound_p001_mono) simp
  show ?thesis
  proof (cases "i < length (inflight_hf s)")
    case False
    with s1 show ?thesis by (simp add: resume_p001_def)
  next
    case True
    show ?thesis
    proof (cases "inflight_hf s ! i")
      case Discovering_hf
      show ?thesis
      proof (cases "discoverReferenceFolders cfg (w (turn_hf s))")
        case (Inl err)
        from removed_p001_sound [OF s1 refl, of i] True Discovering_hf Inl show ?thesis
          by (simp add: resume_p001_def)
      next
        case (Inr fs)
        from settle_p001_sound [OF s1 heldAfter_p001_start [of cfg w "turn_hf s" fs, OF Inr]
            turnsWithin_single [OF assms(2)] refl]
        show ?thesis
          using True Discovering_hf Inr by (simp add: resume_p001_def)
      qed
    next
      case (Loading_hf hist rest out)
      from assms(1) True Loading_hf
      have tr: "onTrack_p001 cfg w lo (turn_hf s) (Loading_hf hist rest out)"
        by (auto simp add: sound_p001_def list_all_length)
      then have ne: "rest \<noteq> []" and held: "heldAfter_p001 cfg w hist rest out"
        and tw: "turnsWithin lo (turn_hf s) hist"
        by (simp_all add: onTrack_p001_def)
      from ne obtain f rest' where rest: "rest = f # rest'"
        by (cases rest) auto
      obtain r st' where lf: "loadFolders_p001 cfg (w (turn_hf s)) [f] out (shared s) = (r, st')"
        by (cases "loadFolders_p001 cfg (w (turn_hf s)) [f] out (shared s)")
      note one = loadFolders_p001_one [OF lf]
      show ?thesis
      proof (cases r)
        case (Inl err)
        from removed_p001_sound [OF s1 conjunct1 [OF one], of i] True Loading_hf rest lf Inl
        show ?thesis
          by (simp add: resume_p001_def del: loadFolders_p001.simps)
      next
        case (Inr out')
        with one have step: "out' = out
               \<or> (\<exists>g. out' = out @ [g] \<and> r_label g = f \<and> r_vecs g \<noteq> []
                        \<and> r_urls g = listed (w (turn_hf s)) f)"
          by blast
        from settle_p001_sound [OF s1 heldAfter_p001_step [OF held [unfolded rest] step]
            turnsWithin_snoc [OF tw assms(2)] conjunct1 [OF one]]
        show ?thesis
          using True Loading_hf rest lf Inr
          by (simp add: resume_p001_def del: loadFolders_p001.simps)
      qed
    qed
  qed
qed

lemma occur_p001_turn: "turn_hf (occur_p001 cfg w ev s) = Suc (turn_hf s)"
  by (simp add: occur_p001_def)

lemma occur_p001_sound:
  assumes "sound_p001 cfg w g0 lo (turn_hf s) s" and "lo \<le> turn_hf s"
  shows "sound_p001 cfg w g0 lo (Suc (turn_hf s)) (occur_p001 cfg w ev s)"
proof (cases ev)
  case (ReloadRequest token)
  from assms(1) have "sound_p001 cfg w g0 lo (Suc (turn_hf s)) s"
    by (rule sound_p001_mono) simp
  then show ?thesis
    using ReloadRequest
    by (simp add: occur_p001_def reloadRequest_p001_def sound_p001_def onTrack_p001_def)
next
  case (Resume i)
  with resume_p001_sound [OF assms, of i] show ?thesis
    by (simp add: occur_p001_def sound_p001_def)
qed

lemma run_p001_turn: "turn_hf (run_p001 cfg w evs s) = turn_hf s + length evs"
  by (induction evs arbitrary: s) (simp_all add: run_p001_def occur_p001_turn)

lemma run_p001_sound:
  assumes "sound_p001 cfg w g0 lo (turn_hf s) s" and "lo \<le> turn_hf s"
  shows "sound_p001 cfg w g0 lo (turn_hf s + length evs) (run_p001 cfg w evs s)"
  using assms
proof (induction evs arbitrary: s)
  case Nil
  then show ?case by (simp add: run_p001_def)
next
  case (Cons ev evs)
  have o: "sound_p001 cfg w g0 lo (turn_hf (occur_p001 cfg w ev s)) (occur_p001 cfg w ev s)"
    unfolding occur_p001_turn using Cons.prems by (rule occur_p001_sound)
  have "lo \<le> turn_hf (occur_p001 cfg w ev s)"
    unfolding occur_p001_turn using Cons.prems(2) by simp
  from Cons.IH [OF o this] show ?case
    by (simp add: run_p001_def occur_p001_turn)
qed

lemma run_p001_requests:
  assumes "CLOUD_NAME cfg \<noteq> [] \<and> CLOUD_API_KEY cfg \<noteq> [] \<and> CLOUD_API_SECRET cfg \<noteq> []"
  shows "inflight_hf (run_p001 cfg w (replicate n (ReloadRequest (ADMIN_TOKEN cfg))) s)
         = inflight_hf s @ replicate n Discovering_hf"
proof (induction n arbitrary: s)
  case 0
  show ?case by (simp add: run_p001_def)
next
  case (Suc n)
  have "inflight_hf (occur_p001 cfg w (ReloadRequest (ADMIN_TOKEN cfg)) s)
        = inflight_hf s @ [Discovering_hf]"
    using assms by (simp add: occur_p001_def reloadRequest_p001_def)
  with Suc [of "occur_p001 cfg w (ReloadRequest (ADMIN_TOKEN cfg)) s"] show ?case
    by (simp add: run_p001_def replicate_app_Cons_same)
qed


lemma run_append: "run cfg w (xs @ ys) s = run cfg w ys (run cfg w xs s)"
  by (simp add: run_def)

lemma run_p001_append: "run_p001 cfg w (xs @ ys) s = run_p001 cfg w ys (run_p001 cfg w xs s)"
  by (simp add: run_p001_def)

lemma sound_start:
  assumes "list_all (\<lambda>b. b = Discovering) (inflight s)" and "publishedBy s = []"
  shows "sound cfg w (published s) lo hi s"
  using assms by (auto simp add: sound_def onTrack_def list_all_iff)

lemma sound_p001_start:
  assumes "list_all (\<lambda>b. b = Discovering_hf) (inflight_hf s)" and "publishedBy_hf s = []"
  shows "sound_p001 cfg w (groups (shared s)) lo hi s"
  using assms by (auto simp add: sound_p001_def onTrack_p001_def list_all_iff)

lemma ex_config_folders_admin:
  "ADMIN_TOKEN ex_config_folders = ''admin''" "\<not> LIGHT_MODE ex_config_folders"
  by (simp_all add: ex_config_folders_def ex_config_heavy_def ex_config_light_def)

lemma ex_reloadRequest:
  "reloadRequest ex_config_folders ''admin'' s = s\<lparr>inflight := inflight s @ [Discovering]\<rparr>"
  using ex_config_folders_facts(1)
  by (simp add: reloadRequest_def ex_config_folders_admin)

lemma ex_loadFolder_retouched:
  "loadFolder ex_config_folders ex_env_retouched ''Reference Female A'' ([], []) =
     (Inr [\<lparr>c_label = ''Reference Female A'', c_gender = ''female'', c_size = 1,
            c_centroid = [0.8, 0.6]\<rparr>],
      [EmbedFail ''Reference Female A'' ''https://res.example.com/ref/a2.jpg''
         ''image_fetch_failed:404''])"
  by (simp add: loadFolder_def ex_env_retouched_def ex_env_one_image_fails_def slice0_def
      ex_config_folders_facts runWorkers_def completionOrder_fifo foldEmbedding_def addInto_def
      ex_inferGender_female_a Let_def)

lemma ex_loadFolder_empty_folder_retouched:
  "loadFolder ex_config_folders ex_env_retouched ''Reference Male B'' acc = (Inr (fst acc), snd acc)"
  by (cases acc) (simp add: loadFolder_def ex_env_retouched_def ex_env_one_image_fails_def)

lemma ex_run_overlap:
  "run ex_config_folders ex_world ex_events_overlap ex_server0 =
     \<lparr>published = [], publishedBy = [],
      inflight =
        [Loading [1, 2] [''Reference Male B'']
           [\<lparr>c_label = ''Reference Female A'', c_gender = ''female'', c_size = 1,
              c_centroid = [0.6, 0.8]\<rparr>]
           [EmbedFail ''Reference Female A'' ''https://res.example.com/ref/a2.jpg''
              ''image_fetch_failed:404''],
         Loading [4, 5] [''Reference Male B'']
           [\<lparr>c_label = ''Reference Female A'', c_gender = ''female'', c_size = 1,
              c_centroid = [0.8, 0.6]\<rparr>]
           [EmbedFail ''Reference Female A'' ''https://res.example.com/ref/a2.jpg''
              ''image_fetch_failed:404'']],
      turn = 6\<rparr>"
  by (simp add: run_def ex_events_overlap_def ex_server0_def occur_def ex_reloadRequest resume_def
      settle_def ex_config_folders_facts ex_world_def ex_loadFolder_one_image_fails
      ex_loadFolder_retouched)

lemma ex_run_second_finishes:
  "run ex_config_folders ex_world (ex_events_overlap @ [Resume 1]) ex_server0 =
     \<lparr>published = [\<lparr>c_label = ''Reference Female A'', c_gender = ''female'', c_size = 1,
                      c_centroid = [0.8, 0.6]\<rparr>],
      publishedBy = [4, 5, 6],
      inflight =
        [Loading [1, 2] [''Reference Male B'']
           [\<lparr>c_label = ''Reference Female A'', c_gender = ''female'', c_size = 1,
              c_centroid = [0.6, 0.8]\<rparr>]
           [EmbedFail ''Reference Female A'' ''https://res.example.com/ref/a2.jpg''
              ''image_fetch_failed:404'']],
      turn = 7\<rparr>"
  unfolding run_append ex_run_overlap
  by (simp add: run_def occur_def resume_def settle_def removeAt_def ex_world_def
      ex_loadFolder_empty_folder_retouched)

lemma ex_run_race:
  "run ex_config_folders ex_world ex_events_race ex_server0 =
     \<lparr>published = [\<lparr>c_label = ''Reference Female A'', c_gender = ''female'', c_size = 1,
                      c_centroid = [0.6, 0.8]\<rparr>],
      publishedBy = [1, 2, 7], inflight = [], turn = 8\<rparr>"
proof -
  have "run ex_config_folders ex_world ex_events_race ex_server0
        = run ex_config_folders ex_world [Resume 0]
            (run ex_config_folders ex_world (ex_events_overlap @ [Resume 1]) ex_server0)"
    by (simp add: ex_events_race_def run_def)
  then show ?thesis
    unfolding ex_run_second_finishes
    by (simp add: run_def occur_def resume_def settle_def removeAt_def ex_world_def
        ex_loadFolder_empty_folder_retouched)
qed

text \<open>
  C3, as stated, fails: the handler of \<^verbatim>\<open>/admin/reload_refs\<close> checks the token, the mode and
  the credentials, and then calls \<^verbatim>\<open>loadClusters\<close>; it looks at no flag and takes no lock.
  A second request that arrives while the first build waits for its second folder starts
  a build of its own, and the two advance in turns: after the six events of
  \<open>ex_events_overlap\<close> two builds are in flight, each with its first folder done. They
  race on the replacement of the cache as well: the second build, which saw the newer
  embedding of the image, replaces the cache first, and the first build, which holds the
  older one, replaces it after that.
\<close>

theorem C3_two_builds_in_flight_counterexample:
  "length (inflight (run ex_config_folders ex_world ex_events_overlap ex_server0)) = 2
   \<and> \<not> singleBuild (run ex_config_folders ex_world ex_events_overlap ex_server0)
   \<and> published (run ex_config_folders ex_world (ex_events_overlap @ [Resume 1]) ex_server0)
       = [\<lparr>c_label = ''Reference Female A'', c_gender = ''female'', c_size = 1,
            c_centroid = [0.8, 0.6]\<rparr>]
   \<and> published (run ex_config_folders ex_world (ex_events_overlap @ [Resume 1, Resume 0]) ex_server0)
       = [\<lparr>c_label = ''Reference Female A'', c_gender = ''female'', c_size = 1,
            c_centroid = [0.6, 0.8]\<rparr>]"
  using ex_run_race
  unfolding ex_run_overlap ex_run_second_finishes ex_events_race_def
  by (simp add: singleBuild_def)


text \<open>
  C3, amended. Builds are not mutually exclusive: in any state a reload request that
  passes the checks of its handler starts a call of \<^verbatim>\<open>loadClusters\<close> of its own, whatever
  is in flight, and the calls in flight advance in any order, one folder at a time. A
  call that finishes its last folder replaces the cache by its own list, whatever the
  cache holds. Hence, from a server in which no call has begun its work, after any
  sequence of requests and resumptions the cache is either what it was at the start or
  the whole list of one call: in the centroid variants the list that this call built from
  the folders it learnt at its first turn, visited one by one at its later turns, each
  with what storage and embedding answered at that turn; in \<^verbatim>\<open>part_001\<close> a list of groups
  for folders this call learnt at its first turn, in their order, each with the listing
  its folder had at a turn of this call and with at least one vector. The cache is never
  put together from the lists of two calls. (In a world that does not change, the list a
  call builds is the one \<^verbatim>\<open>loadClusters\<close> leaves in the cache.)
\<close>

theorem C3_builds_overlap_cache_replaced_whole:
  assumes "list_all (\<lambda>b. b = Discovering) (inflight s0)" and "publishedBy s0 = []"
    and "list_all (\<lambda>b. b = Discovering_hf) (inflight_hf s1)" and "publishedBy_hf s1 = []"
  shows "(\<not> LIGHT_MODE cfg \<and> CLOUDINARY_CLOUD_NAME cfg \<noteq> [] \<and> CLOUDINARY_API_KEY cfg \<noteq> []
              \<and> CLOUDINARY_API_SECRET cfg \<noteq> []
            \<longrightarrow> inflight (run cfg w (evs @ replicate n (ReloadRequest (ADMIN_TOKEN cfg))) s0)
                = inflight (run cfg w evs s0) @ replicate n Discovering)
         \<and> (i < length (inflight s) \<and> inflight s ! i = Loading hist [f] out lg
              \<and> loadFolder cfg (w (turn s)) f (out, lg) = (Inr out', lg')
            \<longrightarrow> published (occur cfg w (Resume i) s) = out'
                \<and> publishedBy (occur cfg w (Resume i) s) = hist @ [turn s])
         \<and> (if publishedBy (run cfg w evs s0) = []
             then published (run cfg w evs s0) = published s0
             else builtAt cfg w (publishedBy (run cfg w evs s0)) (published (run cfg w evs s0))
                  \<and> turnsWithin (turn s0) (turn s0 + length evs) (publishedBy (run cfg w evs s0)))
         \<and> (builtAt cfg (\<lambda>t. e) turns whole
              \<and> CLOUDINARY_CLOUD_NAME cfg \<noteq> [] \<and> CLOUDINARY_API_KEY cfg \<noteq> []
              \<and> CLOUDINARY_API_SECRET cfg \<noteq> []
            \<longrightarrow> loadClusters cfg e \<lparr>clusters = p, logged = []\<rparr>
                = (None, \<lparr>clusters = whole,
                          logged = logged (snd (loadClusters cfg e \<lparr>clusters = p, logged = []\<rparr>))\<rparr>))
         \<and> (CLOUD_NAME cfg1 \<noteq> [] \<and> CLOUD_API_KEY cfg1 \<noteq> [] \<and> CLOUD_API_SECRET cfg1 \<noteq> []
            \<longrightarrow> inflight_hf (run_p001 cfg1 w1 (evs1 @ replicate n (ReloadRequest (ADMIN_TOKEN cfg1))) s1)
                = inflight_hf (run_p001 cfg1 w1 evs1 s1) @ replicate n Discovering_hf)
         \<and> (if publishedBy_hf (run_p001 cfg1 w1 evs1 s1) = []
             then groups (shared (run_p001 cfg1 w1 evs1 s1)) = groups (shared s1)
             else heldAfter_p001 cfg1 w1 (publishedBy_hf (run_p001 cfg1 w1 evs1 s1)) []
                    (groups (shared (run_p001 cfg1 w1 evs1 s1)))
                  \<and> turnsWithin (turn_hf s1) (turn_hf s1 + length evs1)
                       (publishedBy_hf (run_p001 cfg1 w1 evs1 s1)))"
proof (intro conjI impI)
  assume "\<not> LIGHT_MODE cfg \<and> CLOUDINARY_CLOUD_NAME cfg \<noteq> [] \<and> CLOUDINARY_API_KEY cfg \<noteq> []
              \<and> CLOUDINARY_API_SECRET cfg \<noteq> []"
  then show "inflight (run cfg w (evs @ replicate n (ReloadRequest (ADMIN_TOKEN cfg))) s0)
                = inflight (run cfg w evs s0) @ replicate n Discovering"
    unfolding run_append by (intro run_requests) simp_all
next
  assume a: "i < length (inflight s) \<and> inflight s ! i = Loading hist [f] out lg
              \<and> loadFolder cfg (w (turn s)) f (out, lg) = (Inr out', lg')"
  then show "published (occur cfg w (Resume i) s) = out'"
    by (simp add: occur_def resume_def settle_def)
  from a show "publishedBy (occur cfg w (Resume i) s) = hist @ [turn s]"
    by (simp add: occur_def resume_def settle_def)
next
  from run_sound [OF sound_start [OF assms(1,2), of cfg w "turn s0" "turn s0"] order_refl, of evs]
  show "if publishedBy (run cfg w evs s0) = []
        then published (run cfg w evs s0) = published s0
        else builtAt cfg w (publishedBy (run cfg w evs s0)) (published (run cfg w evs s0))
             \<and> turnsWithin (turn s0) (turn s0 + length evs) (publishedBy (run cfg w evs s0))"
    by (simp add: sound_def)
next
  assume b: "builtAt cfg (\<lambda>t. e) turns whole
              \<and> CLOUDINARY_CLOUD_NAME cfg \<noteq> [] \<and> CLOUDINARY_API_KEY cfg \<noteq> []
              \<and> CLOUDINARY_API_SECRET cfg \<noteq> []"
  with builtAt_constant [of cfg e turns whole p]
  have "fst (loadClusters cfg e \<lparr>clusters = p, logged = []\<rparr>) = None
     \<and> clusters (snd (loadClusters cfg e \<lparr>clusters = p, logged = []\<rparr>)) = whole"
    by simp
  then show "loadClusters cfg e \<lparr>clusters = p, logged = []\<rparr>
                = (None, \<lparr>clusters = whole,
                          logged = logged (snd (loadClusters cfg e \<lparr>clusters = p, logged = []\<rparr>))\<rparr>)"
    by (cases "loadClusters cfg e \<lparr>clusters = p, logged = []\<rparr>") auto
next
  assume "CLOUD_NAME cfg1 \<noteq> [] \<and> CLOUD_API_KEY cfg1 \<noteq> [] \<and> CLOUD_API_SECRET cfg1 \<noteq> []"
  then show "inflight_hf (run_p001 cfg1 w1 (evs1 @ replicate n (ReloadRequest (ADMIN_TOKEN cfg1))) s1)
                = inflight_hf (run_p001 cfg1 w1 evs1 s1) @ replicate n Discovering_hf"
    unfolding run_p001_append by (rule run_p001_requests)
next
  from run_p001_sound [OF sound_p001_start [OF assms(3,4), of cfg1 w1 "turn_hf s1" "turn_hf s1"]
      order_refl, of evs1]
  show "if publishedBy_hf (run_p001 cfg1 w1 evs1 s1) = []
        then groups (shared (run_p001 cfg1 w1 evs1 s1)) = groups (shared s1)
        else heldAfter_p001 cfg1 w1 (publishedBy_hf (run_p001 cfg1 w1 evs1 s1)) []
               (groups (shared (run_p001 cfg1 w1 evs1 s1)))
             \<and> turnsWithin (turn_hf s1) (turn_hf s1 + length evs1)
                  (publishedBy_hf (run_p001 cfg1 w1 evs1 s1))"
    by (simp add: sound_p001_def)
qed

lemma ex_loadFolders_p001_a:
  "loadFolders_p001 ex_config_hf ex_env_hf_refs [''Reference Female A''] [] ex_state_hf0
   = (Inr [\<lparr>r_label = ''Reference Female A'', r_gender = ''female'',
             r_urls = [''https://res.example.com/ref/a1.jpg'',
                       ''https://res.example.com/ref/a2.jpg''],
             r_vecs = [[Some 1, Some 0]]\<rparr>],
      \<lparr>embedCache = [''https://res.example.com/ref/a1.jpg'' \<mapsto> [Some 1, Some 0]],
       groups = [],
       logged_hf = [EmbedFailHf ''Reference Female A'' ''https://res.example.com/ref/a2.jpg''
                      (ImageFetchFailed ''image_fetch_failed:404'')],
       requests = 1, sleeps = []\<rparr>)"
proof -
  have la: "searchFolderAssets ex_env_hf_refs ''Reference Female A''
            = Inr [''https://res.example.com/ref/a1.jpg'', ''https://res.example.com/ref/a2.jpg'']"
    by (simp add: ex_env_hf_refs_def)
  have e0: "embedCache ex_state_hf0 = Map.empty"
    by (simp add: ex_state_hf0_def)
  have ea: "embedAll ex_config_hf ex_env_hf_refs ''Reference Female A''
              [''https://res.example.com/ref/a1.jpg'', ''https://res.example.com/ref/a2.jpg''] []
              ex_state_hf0
            = ([[Some 1, Some 0]],
               \<lparr>embedCache = [''https://res.example.com/ref/a1.jpg'' \<mapsto> [Some 1, Some 0]],
                groups = [],
                logged_hf = [EmbedFailHf ''Reference Female A'' ''https://res.example.com/ref/a2.jpg''
                               (ImageFetchFailed ''image_fetch_failed:404'')],
                requests = 1, sleeps = []\<rparr>)"
    by (simp add: ex_getEmbedding_refs_a1 [OF e0] ex_getEmbedding_refs_a2)
       (simp add: ex_state_hf0_def)
  show ?thesis
    by (simp add: la ea ex_inferGender_female_a del: embedAll.simps)
qed

lemma ex_loadFolders_p001_b:
  "loadFolders_p001 ex_config_hf ex_env_hf_refs [''Reference Male B''] out st = (Inr out, st)"
  by (simp add: ex_env_hf_refs_def)

lemma ex_run_p001:
  "run_p001 ex_config_hf ex_world_hf ex_events_hf ex_server_hf0 =
     \<lparr>shared =
        \<lparr>embedCache = [''https://res.example.com/ref/a1.jpg'' \<mapsto> [Some 1, Some 0]],
         groups = [\<lparr>r_label = ''Reference Female A'', r_gender = ''female'',
                    r_urls = [''https://res.example.com/ref/a1.jpg'',
                              ''https://res.example.com/ref/a2.jpg''],
                    r_vecs = [[Some 1, Some 0]]\<rparr>],
         logged_hf = [EmbedFailHf ''Reference Female A'' ''https://res.example.com/ref/a2.jpg''
                        (ImageFetchFailed ''image_fetch_failed:404''),
                      Loaded [(''Reference Female A'', 1)]],
         requests = 1, sleeps = []\<rparr>,
      publishedBy_hf = [0, 2, 4],
      inflight_hf = [Loading_hf [3] [''Reference Female A'', ''Reference Male B''] []],
      turn_hf = 5\<rparr>"
proof -
  have tok: "ADMIN_TOKEN ex_config_hf = ''admin''"
    and creds: "CLOUD_NAME ex_config_hf \<noteq> []" "CLOUD_API_KEY ex_config_hf \<noteq> []"
      "CLOUD_API_SECRET ex_config_hf \<noteq> []"
    by (simp_all add: ex_config_hf_def)
  show ?thesis
    by (simp add: run_p001_def ex_events_hf_def ex_server_hf0_def occur_p001_def
        reloadRequest_p001_def resume_p001_def settle_p001_def removeAt_def tok creds
        ex_world_hf_def ex_discover_hf_refs ex_loadFolders_p001_a ex_loadFolders_p001_b
        del: loadFolders_p001.simps)
qed

theorem C3_builds_overlap_cache_replaced_whole_witness:
  "list_all (\<lambda>b. b = Discovering) (inflight ex_server0) \<and> publishedBy ex_server0 = []
   \<and> list_all (\<lambda>b. b = Discovering_hf) (inflight_hf ex_server_hf0)
   \<and> publishedBy_hf ex_server_hf0 = []
   \<and> published (run ex_config_folders ex_world ex_events_race ex_server0)
       = [\<lparr>c_label = ''Reference Female A'', c_gender = ''female'', c_size = 1,
            c_centroid = [0.6, 0.8]\<rparr>]
   \<and> builtAt ex_config_folders ex_world [1, 2, 7]
       [\<lparr>c_label = ''Reference Female A'', c_gender = ''female'', c_size = 1,
          c_centroid = [0.6, 0.8]\<rparr>]
   \<and> length (inflight (run ex_config_folders ex_world
                         (ex_events_race @ replicate 3 (ReloadRequest ''admin'')) ex_server0)) = 3
   \<and> groups (shared (run_p001 ex_config_hf ex_world_hf ex_events_hf ex_server_hf0))
       = [\<lparr>r_label = ''Reference Female A'', r_gender = ''female'',
            r_urls = [''https://res.example.com/ref/a1.jpg'',
                      ''https://res.example.com/ref/a2.jpg''],
            r_vecs = [[Some 1, Some 0]]\<rparr>]
   \<and> heldAfter_p001 ex_config_hf ex_world_hf [0, 2, 4] []
       [\<lparr>r_label = ''Reference Female A'', r_gender = ''female'',
          r_urls = [''https://res.example.com/ref/a1.jpg'',
                    ''https://res.example.com/ref/a2.jpg''],
          r_vecs = [[Some 1, Some 0]]\<rparr>]"
proof -
  have a1: "list_all (\<lambda>b. b = Discovering) (inflight ex_server0)"
    and a2: "publishedBy ex_server0 = []"
    by (simp_all add: ex_server0_def)
  have a3: "list_all (\<lambda>b. b = Discovering_hf) (inflight_hf ex_server_hf0)"
    and a4: "publishedBy_hf ex_server_hf0 = []"
    by (simp_all add: ex_server_hf0_def)
  note inst = C3_builds_overlap_cache_replaced_whole [OF a1 a2 a3 a4,
      where cfg = ex_config_folders and w = ex_world and evs = ex_events_race and n = 3
        and ?cfg1.0 = ex_config_hf and ?w1.0 = ex_world_hf and ?evs1.0 = ex_events_hf]
  have creds: "\<not> LIGHT_MODE ex_config_folders \<and> CLOUDINARY_CLOUD_NAME ex_config_folders \<noteq> []
      \<and> CLOUDINARY_API_KEY ex_config_folders \<noteq> [] \<and> CLOUDINARY_API_SECRET ex_config_folders \<noteq> []"
    using ex_config_folders_facts(1) ex_config_folders_admin(2) by simp
  from conjunct1 [OF inst] creds
  have "inflight (run ex_config_folders ex_world
                    (ex_events_race @ replicate 3 (ReloadRequest (ADMIN_TOKEN ex_config_folders)))
                    ex_server0)
        = inflight (run ex_config_folders ex_world ex_events_race ex_server0)
          @ replicate 3 Discovering"
    by (rule mp)
  then have many: "length (inflight (run ex_config_folders ex_world
                         (ex_events_race @ replicate 3 (ReloadRequest ''admin'')) ex_server0)) = 3"
    by (simp add: ex_config_folders_admin(1) ex_run_race)
  from conjunct1 [OF conjunct2 [OF conjunct2 [OF inst]]]
  have built: "builtAt ex_config_folders ex_world [1, 2, 7]
       [\<lparr>c_label = ''Reference Female A'', c_gender = ''female'', c_size = 1,
          c_centroid = [0.6, 0.8]\<rparr>]"
    by (simp add: ex_run_race)
  from conjunct2 [OF conjunct2 [OF conjunct2 [OF conjunct2 [OF conjunct2 [OF inst]]]]]
  have held: "heldAfter_p001 ex_config_hf ex_world_hf [0, 2, 4] []
       [\<lparr>r_label = ''Reference Female A'', r_gender = ''female'',
          r_urls = [''https://res.example.com/ref/a1.jpg'',
                    ''https://res.example.com/ref/a2.jpg''],
          r_vecs = [[Some 1, Some 0]]\<rparr>]"
    by (simp add: ex_run_p001)
  from a1 a2 a3 a4 many built held show ?thesis
    by (simp add: ex_run_race ex_run_p001)
qed

end
